theory Spec2Isabelle
  imports Main "HOL-Library.AList" "HOL-Library.Multiset" "HOL-Library.Product_Lexorder"
begin

section \<open>Data model\<close>

text \<open>
  The exceptions that the modelled code paths of \<^verbatim>\<open>logparse.py\<close> can raise, by their
  Python names (polars' and pandas' own exception classes included).
\<close>

datatype error =
    ValueError
  | KeyError
  | TypeError
  | AttributeError
  | ZeroDivisionError
  | ColumnNotFoundError
  | ShapeError
  | SchemaError
  | InvalidOperationError
  | OverflowError
  | JSONDecodeError
  | NoRowsReturnedError
  | TooManyRowsReturnedError

text \<open>
  A polars cell: null, a string, an integer (status codes, byte counts, and timestamps as
  seconds since the epoch) or a float, which no modelled operation computes with and which
  is therefore kept as its decimal literal.
\<close>

datatype cell = Null | Str string | Int64 int | Float64 string

text \<open>
  A row as \<^verbatim>\<open>DataFrame.row(named=True)\<close> gives it, and a data frame as its column names
  (which an empty frame still has) with its rows.
\<close>

type_synonym row = "(string \<times> cell) list"

record frame =
  columns :: "string list"
  rows :: "row list"

definition empty_frame :: frame where
  "empty_frame = \<lparr>columns = [], rows = []\<rparr>"

definition height :: "frame \<Rightarrow> nat" where
  "height f = length (rows f)"

definition cell_of :: "row \<Rightarrow> string \<Rightarrow> cell" where
  "cell_of r name = (case map_of r name of Some v \<Rightarrow> v | None \<Rightarrow> Null)"

definition get_column :: "string \<Rightarrow> frame \<Rightarrow> error + cell list" where
  "get_column name f =
     (if name \<in> set (columns f) then Inr (map (\<lambda>r. cell_of r name) (rows f))
      else Inl ColumnNotFoundError)"

text \<open>The values of a column, for a column the frame is known to have.\<close>

definition column :: "string \<Rightarrow> frame \<Rightarrow> cell list" where
  "column name f = map (\<lambda>r. cell_of r name) (rows f)"

text \<open>
  \<^verbatim>\<open>with_columns(name=values)\<close>: an existing column is replaced in place, a new one is
  appended. The callers below always pass one value per row.
\<close>

definition with_columns :: "string \<Rightarrow> cell list \<Rightarrow> frame \<Rightarrow> frame" where
  "with_columns name vals f =
     \<lparr>columns = (if name \<in> set (columns f) then columns f else columns f @ [name]),
      rows = map (\<lambda>(r, v). AList.update name v r) (zip (rows f) vals)\<rparr>"

definition filter_rows :: "(row \<Rightarrow> bool) \<Rightarrow> frame \<Rightarrow> frame" where
  "filter_rows p f = f\<lparr>rows := filter p (rows f)\<rparr>"

text \<open>
  Sequencing of fallible steps: the first exception ends the computation.
\<close>

fun collect :: "(error + 'a) list \<Rightarrow> error + 'a list" where
  "collect [] = Inr []"
| "collect (x # xs) =
     (case x of
        Inl e \<Rightarrow> Inl e
      | Inr v \<Rightarrow> (case collect xs of Inl e \<Rightarrow> Inl e | Inr vs \<Rightarrow> Inr (v # vs)))"

text \<open>
  \<^verbatim>\<open>Expr.map_elements(f)\<close> with its default \<^verbatim>\<open>skip_nulls=True\<close>: nulls stay null and
  never reach the Python function.
\<close>

definition map_elements :: "(cell \<Rightarrow> error + cell) \<Rightarrow> cell list \<Rightarrow> error + cell list" where
  "map_elements f cs = collect (map (\<lambda>c. if c = Null then Inr Null else f c) cs)"

subsection \<open>The parser object\<close>

text \<open>
  The attributes of \<^verbatim>\<open>ErddapLogParser\<close>. The last three are not set by
  \<^verbatim>\<open>__init__\<close>: they are absent (\<open>None\<close>) until a method assigns them, and reading an
  absent attribute raises \<^verbatim>\<open>AttributeError\<close>.
\<close>

record erddap_log_parser =
  df :: frame
  ip :: frame
  df_xml :: frame
  verbose :: bool
  original_total_requests :: nat
  filter_name :: "string option"
  unfiltered_df :: "frame option"
  location :: "frame option"
  anonymized :: "frame option"

definition init :: erddap_log_parser where
  "init = \<lparr>df = empty_frame, ip = empty_frame, df_xml = empty_frame, verbose = False,
            original_total_requests = 0, filter_name = None, unfiltered_df = None,
            location = None, anonymized = None\<rparr>"

text \<open>
  A method call leaves the object in some state and either returns (\<open>None\<close>) or raises.
\<close>

type_synonym outcome = "error option \<times> erddap_log_parser"

section \<open>Strings\<close>

definition newline :: char where
  "newline = CHR 0x0A"

text \<open>\<open>strip_prefix p s\<close> is what follows \<open>p\<close> in \<open>s\<close> when \<open>s\<close> starts with \<open>p\<close>.\<close>

fun strip_prefix :: "string \<Rightarrow> string \<Rightarrow> string option" where
  "strip_prefix [] s = Some s"
| "strip_prefix (p # ps) [] = None"
| "strip_prefix (p # ps) (c # cs) = (if p = c then strip_prefix ps cs else None)"

text \<open>Python's \<^verbatim>\<open>p in s\<close> on strings.\<close>

fun contains :: "string \<Rightarrow> string \<Rightarrow> bool" where
  "contains p [] = (p = [])"
| "contains p (c # cs) = (strip_prefix p (c # cs) \<noteq> None \<or> contains p cs)"

section \<open>Anonymizing the query string\<close>

text \<open>
  \<^verbatim>\<open>re.sub("email=.*?&", "", url)\<close>. The pattern is the literal \<^verbatim>\<open>email=\<close>, then
  \<^verbatim>\<open>.*?\<close>, the shortest run of characters other than a line break, then \<^verbatim>\<open>&\<close>.
  \<open>lazy_to_amp t\<close> is what follows the shortest match of \<^verbatim>\<open>.*?&\<close> at the head of \<open>t\<close>,
  and \<open>match_email s\<close> what follows a match of the whole pattern at the head of \<open>s\<close>.
  \<^verbatim>\<open>re.sub\<close> scans from the left: where the pattern matches, the match is dropped and the
  scan goes on behind it; elsewhere one character is copied.
\<close>

fun lazy_to_amp :: "string \<Rightarrow> string option" where
  "lazy_to_amp [] = None"
| "lazy_to_amp (c # cs) =
     (if c = CHR ''&'' then Some cs
      else if c = newline then None
      else lazy_to_amp cs)"

definition match_email :: "string \<Rightarrow> string option" where
  "match_email s =
     (case strip_prefix ''email='' s of None \<Rightarrow> None | Some t \<Rightarrow> lazy_to_amp t)"

lemma strip_prefix_Some: "strip_prefix p s = Some t \<Longrightarrow> s = p @ t"
  by (induction p s rule: strip_prefix.induct) (auto split: if_splits)

lemma strip_prefix_append: "strip_prefix p (p @ t) = Some t"
  by (induction p) auto

lemma lazy_to_amp_length: "lazy_to_amp s = Some r \<Longrightarrow> length r < length s"
  by (induction s) (auto split: if_splits)

lemma match_email_length: "match_email s = Some r \<Longrightarrow> length r < length s"
  unfolding match_email_def
  by (auto split: option.splits dest!: strip_prefix_Some lazy_to_amp_length)

function re_sub_email :: "string \<Rightarrow> string" where
  "re_sub_email [] = []"
| "re_sub_email (c # cs) =
     (case match_email (c # cs) of
        Some rest \<Rightarrow> re_sub_email rest
      | None \<Rightarrow> c # re_sub_email cs)"
  by pat_completeness auto
termination
  by (relation "measure length") (auto dest: match_email_length)

text \<open>
  The lambda of \<^verbatim>\<open>anonymize_query\<close>: \<^verbatim>\<open>re.sub\<close> raises \<^verbatim>\<open>TypeError\<close> on a value that
  is not a string.
\<close>

definition strip_email :: "cell \<Rightarrow> error + cell" where
  "strip_email c = (case c of Str u \<Rightarrow> Inr (Str (re_sub_email u)) | _ \<Rightarrow> Inl TypeError)"

definition anonymize_query :: "erddap_log_parser \<Rightarrow> outcome" where
  "anonymize_query s =
     (case anonymized s of
        None \<Rightarrow> (Some AttributeError, s)
      | Some a \<Rightarrow>
          (case get_column ''url'' a of
             Inl e \<Rightarrow> (Some e, s)
           | Inr urls \<Rightarrow>
               (case map_elements strip_email urls of
                  Inl e \<Rightarrow> (Some e, s)
                | Inr urls' \<Rightarrow> (None, s\<lparr>anonymized := Some (with_columns ''url'' urls' a)\<rparr>))))"

subsection \<open>What the substitution removes\<close>

lemma no_border:
  assumes "strip_prefix ''email='' (b @ ''email='' @ x) = Some t" "b \<noteq> []"
  shows "\<exists>u. b = ''email='' @ u"
proof -
  from assms(1) have "b @ ''email='' @ x = ''email='' @ t" by (auto dest: strip_prefix_Some)
  then show ?thesis using assms(2)
    by (auto simp: append_eq_append_conv2 Cons_eq_append_conv append_eq_Cons_conv)
qed

lemma contains_Cons: "contains p cs \<Longrightarrow> contains p (c # cs)"
  by simp

lemma contains_iff: "contains p s \<longleftrightarrow> (\<exists>a b. s = a @ p @ b)"
proof (induction s)
  case Nil
  then show ?case by auto
next
  case (Cons c cs)
  show ?case
  proof
    assume "contains p (c # cs)"
    then consider "strip_prefix p (c # cs) \<noteq> None" | "contains p cs" by auto
    then show "\<exists>a b. c # cs = a @ p @ b"
    proof cases
      case 1
      then obtain t where "strip_prefix p (c # cs) = Some t" by auto
      then have "c # cs = [] @ p @ t" by (auto dest: strip_prefix_Some)
      then show ?thesis by blast
    next
      case 2
      with Cons obtain a b where "cs = a @ p @ b" by blast
      then have "c # cs = (c # a) @ p @ b" by simp
      then show ?thesis by blast
    qed
  next
    assume "\<exists>a b. c # cs = a @ p @ b"
    then obtain a b where ab: "c # cs = a @ p @ b" by blast
    show "contains p (c # cs)"
    proof (cases a)
      case Nil
      with ab have "strip_prefix p (c # cs) = Some b" by (simp add: strip_prefix_append)
      then show ?thesis by simp
    next
      case (Cons a1 as)
      with ab have "cs = as @ p @ b" by simp
      with Cons.IH have "contains p cs" by blast
      then show ?thesis by simp
    qed
  qed
qed

lemma contains_append_left: "contains p (p @ u)"
  unfolding contains_iff by (metis append_Nil)

lemma match_email_None_pre:
  assumes "\<not> contains ''email='' (c # pre)"
  shows "match_email (c # pre @ ''email='' @ x) = None"
proof (cases "strip_prefix ''email='' ((c # pre) @ ''email='' @ x)")
  case None
  then show ?thesis by (simp add: match_email_def)
next
  case (Some t)
  then obtain u where "c # pre = ''email='' @ u" using no_border[of "c # pre" x t] by auto
  then have "contains ''email='' (c # pre)" by (metis contains_append_left)
  with assms show ?thesis by simp
qed

lemma not_contains_tail: "\<not> contains p (c # cs) \<Longrightarrow> \<not> contains p cs"
  by simp

lemma re_sub_email_pre:
  "\<not> contains ''email='' pre \<Longrightarrow>
   re_sub_email (pre @ ''email='' @ x) = pre @ re_sub_email (''email='' @ x)"
proof (induction pre)
  case Nil
  then show ?case by simp
next
  case (Cons c pre)
  have "match_email (c # pre @ ''email='' @ x) = None"
    using Cons.prems by (rule match_email_None_pre)
  moreover have "\<not> contains ''email='' pre" using Cons.prems by (rule not_contains_tail)
  ultimately show ?case using Cons.IH by simp
qed

lemma lazy_to_amp_value:
  "CHR ''&'' \<notin> set v \<Longrightarrow> newline \<notin> set v \<Longrightarrow> lazy_to_amp (v @ CHR ''&'' # rest) = Some rest"
  by (induction v) auto

lemma lazy_to_amp_no_amp: "CHR ''&'' \<notin> set v \<Longrightarrow> lazy_to_amp v = None"
  by (induction v) auto

lemma match_email_hit:
  "CHR ''&'' \<notin> set v \<Longrightarrow> newline \<notin> set v \<Longrightarrow>
   match_email (''email='' @ v @ CHR ''&'' # rest) = Some rest"
  using strip_prefix_append[of "''email=''" "v @ CHR ''&'' # rest"]
  by (simp add: match_email_def lazy_to_amp_value del: strip_prefix.simps)

lemma re_sub_email_hit:
  "CHR ''&'' \<notin> set v \<Longrightarrow> newline \<notin> set v \<Longrightarrow>
   re_sub_email (''email='' @ v @ CHR ''&'' # rest) = re_sub_email rest"
  using match_email_hit[of v rest] by simp

lemma match_email_no_amp: "CHR ''&'' \<notin> set s \<Longrightarrow> match_email s = None"
  unfolding match_email_def
  by (auto split: option.splits dest!: strip_prefix_Some simp: lazy_to_amp_no_amp)

lemma re_sub_email_no_amp: "CHR ''&'' \<notin> set s \<Longrightarrow> re_sub_email s = s"
  by (induction s) (simp_all add: match_email_no_amp)

lemma match_email_contains: "match_email s = Some r \<Longrightarrow> contains ''email='' s"
  unfolding match_email_def
  by (cases s) (auto split: option.splits)

lemma re_sub_email_no_email: "\<not> contains ''email='' s \<Longrightarrow> re_sub_email s = s"
proof (induction s)
  case Nil
  then show ?case by simp
next
  case (Cons c cs)
  have "match_email (c # cs) = None"
  proof (cases "match_email (c # cs)")
    case None
    then show ?thesis .
  next
    case (Some r)
    then have "contains ''email='' (c # cs)" by (rule match_email_contains)
    with Cons.prems show ?thesis by blast
  qed
  moreover have "\<not> contains ''email='' cs" using Cons.prems by (rule not_contains_tail)
  ultimately show ?case using Cons.IH by simp
qed

text \<open>
  The three cases of a string, together. Up to the first \<^verbatim>\<open>email=\<close> the string is
  copied. Where the value \<open>v\<close> after it runs (without a line break, which a URL read from
  one log line cannot hold) up to a next \<^verbatim>\<open>&\<close>, exactly \<^verbatim>\<open>email=\<close>, the value and
  that \<^verbatim>\<open>&\<close> are removed, and the rest is treated the same way. Where no \<^verbatim>\<open>&\<close>
  follows, the string is left as it is; so is a string without \<^verbatim>\<open>email=\<close>.
\<close>

lemma re_sub_email_cases:
  "(\<not> contains ''email='' pre \<and> CHR ''&'' \<notin> set v \<and> newline \<notin> set v \<longrightarrow>
      re_sub_email (pre @ ''email='' @ v @ ''&'' @ rest) = pre @ re_sub_email rest)
   \<and> (\<not> contains ''email='' pre \<and> CHR ''&'' \<notin> set v \<longrightarrow>
      re_sub_email (pre @ ''email='' @ v) = pre @ ''email='' @ v)
   \<and> (\<not> contains ''email='' s \<longrightarrow> re_sub_email s = s)"
proof (intro conjI impI)
  assume h: "\<not> contains ''email='' pre \<and> CHR ''&'' \<notin> set v \<and> newline \<notin> set v"
  then have "re_sub_email (pre @ ''email='' @ (v @ ''&'' @ rest))
             = pre @ re_sub_email (''email='' @ (v @ ''&'' @ rest))"
    using re_sub_email_pre by blast
  moreover have "re_sub_email (''email='' @ v @ CHR ''&'' # rest) = re_sub_email rest"
    using h re_sub_email_hit by blast
  ultimately show "re_sub_email (pre @ ''email='' @ v @ ''&'' @ rest) = pre @ re_sub_email rest"
    by simp
next
  assume h: "\<not> contains ''email='' pre \<and> CHR ''&'' \<notin> set v"
  then have "re_sub_email (pre @ ''email='' @ v) = pre @ re_sub_email (''email='' @ v)"
    using re_sub_email_pre by blast
  moreover have "re_sub_email (''email='' @ v) = ''email='' @ v"
    using h by (intro re_sub_email_no_amp) auto
  ultimately show "re_sub_email (pre @ ''email='' @ v) = pre @ ''email='' @ v" by simp
next
  assume "\<not> contains ''email='' s"
  then show "re_sub_email s = s" by (rule re_sub_email_no_email)
qed

section \<open>Anonymizing the IP addresses\<close>

text \<open>
  \<^verbatim>\<open>Series.unique()\<close> returns each distinct value once; with its default
  \<^verbatim>\<open>maintain_order=False\<close> polars does not promise their order. The order polars happens
  to emit is the parameter \<open>arrange\<close>, some rearrangement of the distinct values.
\<close>

definition series_unique :: "(cell list \<Rightarrow> cell list) \<Rightarrow> cell list \<Rightarrow> cell list" where
  "series_unique arrange cs = arrange (remdups cs)"

text \<open>\<^verbatim>\<open>with_row_index()\<close> puts a column \<^verbatim>\<open>index\<close>, counting from 0, in front.\<close>

definition with_row_index :: "frame \<Rightarrow> frame" where
  "with_row_index f =
     \<lparr>columns = ''index'' # columns f,
      rows = map (\<lambda>(i, r). (''index'', Int64 (int i)) # r) (enumerate 0 (rows f))\<rparr>"

text \<open>
  \<^verbatim>\<open>DataFrame.row(by_predicate=...)\<close> raises unless exactly one row satisfies the predicate.
\<close>

definition row_by_predicate :: "(row \<Rightarrow> bool) \<Rightarrow> frame \<Rightarrow> error + row" where
  "row_by_predicate p f =
     (case filter p (rows f) of
        [] \<Rightarrow> Inl NoRowsReturnedError
      | [r] \<Rightarrow> Inr r
      | _ \<Rightarrow> Inl TooManyRowsReturnedError)"

text \<open>The lambda of \<^verbatim>\<open>anonymize_ip\<close>: the index of the row of \<open>unique_df\<close> that holds the value.\<close>

definition ip_index :: "frame \<Rightarrow> cell \<Rightarrow> error + cell" where
  "ip_index unique_df v =
     (case row_by_predicate (\<lambda>r. cell_of r ''ip'' = v) unique_df of
        Inl e \<Rightarrow> Inl e
      | Inr r \<Rightarrow> Inr (cell_of r ''index''))"

text \<open>
  \<^verbatim>\<open>pl.DataFrame({"ip": ...}).with_row_index()\<close>: the table of the distinct values with
  their positions.
\<close>

definition unique_ip_frame :: "cell list \<Rightarrow> frame" where
  "unique_ip_frame u = with_row_index \<lparr>columns = [''ip''], rows = map (\<lambda>v. [(''ip'', v)]) u\<rparr>"

definition anonymize_ip :: "(cell list \<Rightarrow> cell list) \<Rightarrow> erddap_log_parser \<Rightarrow> outcome" where
  "anonymize_ip arrange s =
     (case anonymized s of
        None \<Rightarrow> (Some AttributeError, s)
      | Some a \<Rightarrow>
          (case get_column ''ip'' a of
             Inl e \<Rightarrow> (Some e, s)
           | Inr ips \<Rightarrow>
               (let unique_df = unique_ip_frame (series_unique arrange ips)
                in case map_elements (ip_index unique_df) ips of
                     Inl e \<Rightarrow> (Some e, s)
                   | Inr idx \<Rightarrow> (None, s\<lparr>anonymized := Some (with_columns ''ip'' idx a)\<rparr>))))"

lemma collect_map_Inr: "collect (map (\<lambda>x. Inr (g x)) xs) = Inr (map g xs)"
  by (induction xs) auto

lemma collect_all_Inr:
  "(\<And>x. x \<in> set xs \<Longrightarrow> f x = Inr (g x)) \<Longrightarrow> collect (map f xs) = Inr (map g xs)"
  by (induction xs) auto

lemma filter_enumerate_distinct:
  "distinct u \<Longrightarrow> k < length u \<Longrightarrow>
   filter (\<lambda>(i, x). x = u ! k) (enumerate n u) = [(n + k, u ! k)]"
proof (induction u arbitrary: n k)
  case Nil
  then show ?case by simp
next
  case (Cons x u)
  show ?case
  proof (cases k)
    case 0
    have "filter (\<lambda>(i, y). y = x) (enumerate (Suc n) u) = []"
      using Cons.prems(1) by (auto simp: filter_empty_conv in_set_enumerate_eq)
    with 0 show ?thesis by simp
  next
    case (Suc k')
    with Cons.prems have lt: "k' < length u" and d: "distinct u" and ne: "x \<noteq> u ! k'"
      by auto
    from Cons.IH[OF d lt, of "Suc n"] Suc ne show ?thesis by simp
  qed
qed

lemma map_enumerate_map:
  "map (\<lambda>(i, r). h i r) (enumerate n (map g u)) = map (\<lambda>(i, v). h i (g v)) (enumerate n u)"
  by (induction u arbitrary: n) auto

lemma rows_unique_ip_frame:
  "rows (unique_ip_frame u) = map (\<lambda>(i, v). [(''index'', Int64 (int i)), (''ip'', v)]) (enumerate 0 u)"
  by (simp add: unique_ip_frame_def with_row_index_def map_enumerate_map)

lemma ip_index_distinct:
  assumes "distinct u" "k < length u"
  shows "ip_index (unique_ip_frame u) (u ! k) = Inr (Int64 (int k))"
proof -
  have "filter (\<lambda>r. cell_of r ''ip'' = u ! k) (rows (unique_ip_frame u))
        = map (\<lambda>(i, v). [(''index'', Int64 (int i)), (''ip'', v)])
            (filter (\<lambda>(i, x). x = u ! k) (enumerate 0 u))"
    unfolding rows_unique_ip_frame filter_map
    by (rule arg_cong[where f = "map _"], rule filter_cong) (auto simp: cell_of_def)
  also have "\<dots> = [[(''index'', Int64 (int k)), (''ip'', u ! k)]]"
    using filter_enumerate_distinct[OF assms, of 0] by simp
  finally show ?thesis
    by (simp add: ip_index_def row_by_predicate_def cell_of_def)
qed

lemma length_collect: "collect xs = Inr ys \<Longrightarrow> length ys = length xs"
  by (induction xs arbitrary: ys) (auto split: sum.splits)

lemma cell_of_update: "cell_of (AList.update name v r) name = v"
  by (simp add: cell_of_def update_conv')

lemma rows_with_columns_nth:
  "length vals = length (rows f) \<Longrightarrow> i < length (rows f) \<Longrightarrow>
   cell_of (rows (with_columns name vals f) ! i) name = vals ! i"
  by (simp add: with_columns_def cell_of_update)

lemma length_rows_with_columns:
  "length vals = length (rows f) \<Longrightarrow> length (rows (with_columns name vals f)) = length (rows f)"
  by (simp add: with_columns_def)

lemma cell_of_update_other: "name \<noteq> c \<Longrightarrow> cell_of (AList.update name v r) c = cell_of r c"
  by (simp add: cell_of_def update_conv')

lemma rows_with_columns_other_nth:
  "length vals = length (rows f) \<Longrightarrow> i < length (rows f) \<Longrightarrow> name \<noteq> c \<Longrightarrow>
   cell_of (rows (with_columns name vals f) ! i) c = cell_of (rows f ! i) c"
  by (simp add: with_columns_def cell_of_update_other)

lemma columns_with_columns_present:
  "name \<in> set (columns f) \<Longrightarrow> columns (with_columns name vals f) = columns f"
  by (simp add: with_columns_def)

text \<open>
  Claim C7. Whatever order polars gives the distinct values, \<^verbatim>\<open>anonymize_ip\<close> on a table
  with an \<^verbatim>\<open>ip\<close> column returns, and keeps the columns, the rows and every cell outside
  the \<^verbatim>\<open>ip\<close> column. There is a function \<open>idx\<close> from the values of the \<^verbatim>\<open>ip\<close> column to
  the natural numbers below the number of distinct values, injective on them, such that
  the \<^verbatim>\<open>ip\<close> cell of every row is replaced by the integer \<open>idx\<close> of the value it held; a
  null stays a null. So no address is left in the column, two rows carry the same integer
  exactly when they carried the same IP, the same IP always receives the same index, and
  two distinct IPs never the same one.
\<close>

theorem anonymize_ip_injective:
  assumes perm: "\<forall>xs. mset (arrange xs) = mset xs"
    and a: "anonymized s = Some a"
    and col: "''ip'' \<in> set (columns a)"
  shows "\<exists>a' idx. anonymize_ip arrange s = (None, s\<lparr>anonymized := Some a'\<rparr>)
           \<and> columns a' = columns a
           \<and> length (rows a') = length (rows a)
           \<and> inj_on idx (set (column ''ip'' a))
           \<and> (\<forall>v \<in> set (column ''ip'' a). idx v < length (remdups (column ''ip'' a)))
           \<and> (\<forall>i < length (rows a).
                 cell_of (rows a' ! i) ''ip''
                 = (if cell_of (rows a ! i) ''ip'' = Null then Null
                    else Int64 (int (idx (cell_of (rows a ! i) ''ip'')))))
           \<and> (\<forall>i < length (rows a). \<forall>c. c \<noteq> ''ip'' \<longrightarrow>
                 cell_of (rows a' ! i) c = cell_of (rows a ! i) c)
           \<and> (\<forall>i < length (rows a). \<forall>j < length (rows a).
                 (cell_of (rows a' ! i) ''ip'' = cell_of (rows a' ! j) ''ip'')
                 = (cell_of (rows a ! i) ''ip'' = cell_of (rows a ! j) ''ip''))"
proof -
  define ips where "ips = column ''ip'' a"
  define u where "u = series_unique arrange ips"
  define idx where "idx = (\<lambda>v. SOME k. k < length u \<and> u ! k = v)"
  define F where "F = (\<lambda>c. if c = Null then Inr Null else ip_index (unique_ip_frame u) c)"
  define G where "G = (\<lambda>v. if v = Null then Null else Int64 (int (idx v)))"
  have ips_nth: "ips ! i = cell_of (rows a ! i) ''ip''" if "i < length (rows a)" for i
    using that by (simp add: ips_def column_def)
  have ips_len: "length ips = length (rows a)" by (simp add: ips_def column_def)
  have mset_u: "mset u = mset (remdups ips)"
    using perm by (simp add: u_def series_unique_def)
  have dist: "distinct u"
    using mset_u by (metis distinct_remdups mset_eq_imp_distinct_iff)
  have set_u: "set u = set ips"
    using mset_u by (metis mset_eq_setD set_remdups)
  have len_u: "length u = length (remdups ips)"
    using mset_u by (rule mset_eq_length)
  have idx: "idx v < length u \<and> u ! idx v = v" if "v \<in> set ips" for v
  proof -
    from that set_u have "v \<in> set u" by simp
    then have "\<exists>k. k < length u \<and> u ! k = v" by (auto simp: in_set_conv_nth)
    then show ?thesis unfolding idx_def by (rule someI_ex)
  qed
  have inj: "inj_on idx (set ips)"
  proof (rule inj_onI)
    fix v w assume v: "v \<in> set ips" and w: "w \<in> set ips" and eq: "idx v = idx w"
    have "v = u ! idx v" using idx[OF v] by simp
    also have "\<dots> = u ! idx w" by (simp only: eq)
    also have "\<dots> = w" using idx[OF w] by simp
    finally show "v = w" .
  qed
  have FG: "F v = Inr (G v)" if "v \<in> set ips" for v
    using idx[OF that] ip_index_distinct[OF dist, of "idx v"] by (simp add: F_def G_def)
  have Ginj: "(G v = G w) = (v = w)" if "v \<in> set ips" "w \<in> set ips" for v w
    using inj that by (auto simp: G_def dest: inj_onD)
  have coll: "map_elements (ip_index (unique_ip_frame u)) ips = Inr (map G ips)"
    unfolding map_elements_def using FG collect_all_Inr[of ips F G] by (simp add: F_def)
  let ?a' = "with_columns ''ip'' (map G ips) a"
  have len: "length (map G ips) = length (rows a)" by (simp add: ips_len)
  have run: "anonymize_ip arrange s = (None, s\<lparr>anonymized := Some ?a'\<rparr>)"
    using a col coll
    by (simp add: anonymize_ip_def get_column_def column_def[symmetric] ips_def[symmetric]
          u_def[symmetric] Let_def)
  have cols: "columns ?a' = columns a"
    using col by (rule columns_with_columns_present)
  have rows_len: "length (rows ?a') = length (rows a)"
    using len by (rule length_rows_with_columns)
  have bound: "\<forall>v \<in> set ips. idx v < length (remdups ips)"
    using idx len_u by simp
  have new: "cell_of (rows ?a' ! i) ''ip'' = G (cell_of (rows a ! i) ''ip'')"
    if "i < length (rows a)" for i
    using that len ips_len by (simp add: rows_with_columns_nth ips_nth)
  have cells: "\<forall>i < length (rows a).
                 cell_of (rows ?a' ! i) ''ip''
                 = (if cell_of (rows a ! i) ''ip'' = Null then Null
                    else Int64 (int (idx (cell_of (rows a ! i) ''ip''))))"
    using new by (simp add: G_def)
  have others: "\<forall>i < length (rows a). \<forall>c. c \<noteq> ''ip'' \<longrightarrow>
                 cell_of (rows ?a' ! i) c = cell_of (rows a ! i) c"
    using len by (auto intro: rows_with_columns_other_nth)
  have same: "\<forall>i < length (rows a). \<forall>j < length (rows a).
                 (cell_of (rows ?a' ! i) ''ip'' = cell_of (rows ?a' ! j) ''ip'')
                 = (cell_of (rows a ! i) ''ip'' = cell_of (rows a ! j) ''ip'')"
  proof (intro allI impI)
    fix i j assume ij: "i < length (rows a)" "j < length (rows a)"
    then have "ips ! i \<in> set ips" "ips ! j \<in> set ips" using ips_len by simp_all
    then show "(cell_of (rows ?a' ! i) ''ip'' = cell_of (rows ?a' ! j) ''ip'')
               = (cell_of (rows a ! i) ''ip'' = cell_of (rows a ! j) ''ip'')"
      using ij Ginj by (simp add: new ips_nth)
  qed
  from run cols rows_len inj bound cells others same show ?thesis
    unfolding ips_def
    by - (rule exI[of _ "with_columns ''ip'' (map G (column ''ip'' a)) a"], rule exI[of _ idx],
          intro conjI; assumption)
qed

text \<open>
  Three requests from two addresses, the distinct values taken in the reverse of their
  order.
\<close>

definition two_ips :: frame where
  "two_ips = \<lparr>columns = [''ip'', ''url''],
      rows = [[(''ip'', Str ''10.0.0.7''), (''url'', Str ''/a'')],
              [(''ip'', Str ''10.0.0.9''), (''url'', Str ''/b'')],
              [(''ip'', Str ''10.0.0.7''), (''url'', Str ''/c'')]]\<rparr>"

theorem anonymize_ip_injective_witness:
  "(\<forall>xs::cell list. mset (rev xs) = mset xs)
   \<and> anonymized (init\<lparr>anonymized := Some two_ips\<rparr>) = Some two_ips
   \<and> ''ip'' \<in> set (columns two_ips)
   \<and> (\<exists>a'. anonymize_ip rev (init\<lparr>anonymized := Some two_ips\<rparr>)
            = (None, init\<lparr>anonymized := Some a'\<rparr>)
          \<and> a' = \<lparr>columns = [''ip'', ''url''],
                  rows = [[(''ip'', Int64 0), (''url'', Str ''/a'')],
                          [(''ip'', Int64 1), (''url'', Str ''/b'')],
                          [(''ip'', Int64 0), (''url'', Str ''/c'')]]\<rparr>
          \<and> (\<exists>idx. inj_on idx {Str ''10.0.0.7'', Str ''10.0.0.9''}
                \<and> cell_of (rows a' ! 0) ''ip'' = Int64 (int (idx (Str ''10.0.0.7'')))
                \<and> cell_of (rows a' ! 1) ''ip'' = Int64 (int (idx (Str ''10.0.0.9'')))
                \<and> cell_of (rows a' ! 2) ''ip'' = Int64 (int (idx (Str ''10.0.0.7'')))))"
proof -
  have p: "\<forall>xs::cell list. mset (rev xs) = mset xs" by simp
  have a: "anonymized (init\<lparr>anonymized := Some two_ips\<rparr>) = Some two_ips" by simp
  have c: "''ip'' \<in> set (columns two_ips)" by (simp add: two_ips_def)
  have l: "length (rows two_ips) = 3" by (simp add: two_ips_def)
  have ips: "column ''ip'' two_ips = [Str ''10.0.0.7'', Str ''10.0.0.9'', Str ''10.0.0.7'']"
    by (simp add: two_ips_def column_def cell_of_def)
  have r: "cell_of (rows two_ips ! 0) ''ip'' = Str ''10.0.0.7''"
    "cell_of (rows two_ips ! 1) ''ip'' = Str ''10.0.0.9''"
    "cell_of (rows two_ips ! 2) ''ip'' = Str ''10.0.0.7''"
    by (simp_all add: two_ips_def cell_of_def)
  have ev: "anonymize_ip rev (init\<lparr>anonymized := Some two_ips\<rparr>)
            = (None, init\<lparr>anonymized := Some \<lparr>columns = [''ip'', ''url''],
                  rows = [[(''ip'', Int64 0), (''url'', Str ''/a'')],
                          [(''ip'', Int64 1), (''url'', Str ''/b'')],
                          [(''ip'', Int64 0), (''url'', Str ''/c'')]]\<rparr>\<rparr>)"
    by code_simp
  from anonymize_ip_injective[OF p a c] obtain a' idx where
    run0: "anonymize_ip rev (init\<lparr>anonymized := Some two_ips\<rparr>)
           = (None, init\<lparr>anonymized := Some two_ips, anonymized := Some a'\<rparr>)"
    and "columns a' = columns two_ips"
    and "length (rows a') = length (rows two_ips)"
    and inj: "inj_on idx (set (column ''ip'' two_ips))"
    and "\<forall>v \<in> set (column ''ip'' two_ips). idx v < length (remdups (column ''ip'' two_ips))"
    and cells: "\<forall>i < length (rows two_ips).
                 cell_of (rows a' ! i) ''ip''
                 = (if cell_of (rows two_ips ! i) ''ip'' = Null then Null
                    else Int64 (int (idx (cell_of (rows two_ips ! i) ''ip''))))"
    by (elim exE conjE) (rule that)
  have run: "anonymize_ip rev (init\<lparr>anonymized := Some two_ips\<rparr>)
           = (None, init\<lparr>anonymized := Some a'\<rparr>)"
    using run0 by simp
  have "Some a' = anonymized (snd (anonymize_ip rev (init\<lparr>anonymized := Some two_ips\<rparr>)))"
    by (simp add: run)
  also have "\<dots> = Some \<lparr>columns = [''ip'', ''url''],
                  rows = [[(''ip'', Int64 0), (''url'', Str ''/a'')],
                          [(''ip'', Int64 1), (''url'', Str ''/b'')],
                          [(''ip'', Int64 0), (''url'', Str ''/c'')]]\<rparr>"
    by (simp add: ev)
  finally have lit: "a' = \<lparr>columns = [''ip'', ''url''],
                  rows = [[(''ip'', Int64 0), (''url'', Str ''/a'')],
                          [(''ip'', Int64 1), (''url'', Str ''/b'')],
                          [(''ip'', Int64 0), (''url'', Str ''/c'')]]\<rparr>"
    by simp
  have inj': "inj_on idx {Str ''10.0.0.7'', Str ''10.0.0.9''}"
    using inj by (simp add: ips insert_commute)
  have c0: "cell_of (rows a' ! 0) ''ip'' = Int64 (int (idx (Str ''10.0.0.7'')))"
    using cells[rule_format, of 0] l r(1) by simp
  have c1: "cell_of (rows a' ! 1) ''ip'' = Int64 (int (idx (Str ''10.0.0.9'')))"
    using cells[rule_format, of 1] l r(2) by simp
  have c2: "cell_of (rows a' ! 2) ''ip'' = Int64 (int (idx (Str ''10.0.0.7'')))"
    using cells[rule_format, of 2] l r(3) by simp
  from inj' c0 c1 c2 have
    "\<exists>idx. inj_on idx {Str ''10.0.0.7'', Str ''10.0.0.9''}
         \<and> cell_of (rows a' ! 0) ''ip'' = Int64 (int (idx (Str ''10.0.0.7'')))
         \<and> cell_of (rows a' ! 1) ''ip'' = Int64 (int (idx (Str ''10.0.0.9'')))
         \<and> cell_of (rows a' ! 2) ''ip'' = Int64 (int (idx (Str ''10.0.0.7'')))"
    by - (rule exI[of _ idx], intro conjI; assumption)
  with run lit p a c show ?thesis
    by - (intro conjI, assumption, assumption, assumption, rule exI[of _ a'], intro conjI;
          assumption)
qed

section \<open>Table operations\<close>

text \<open>
  \<^verbatim>\<open>DataFrame.filter(expr)\<close> on one column: a row stays when the expression is true for
  it; where the expression is null the row goes, as where it is false.
\<close>

definition filter_col :: "string \<Rightarrow> (cell \<Rightarrow> bool option) \<Rightarrow> frame \<Rightarrow> error + frame" where
  "filter_col name p f =
     (if name \<in> set (columns f) then Inr (filter_rows (\<lambda>r. p (cell_of r name) = Some True) f)
      else Inl ColumnNotFoundError)"

text \<open>\<^verbatim>\<open>with_columns(pl.col(name).fill_null(v))\<close>.\<close>

definition fill_null :: "string \<Rightarrow> cell \<Rightarrow> frame \<Rightarrow> error + frame" where
  "fill_null name v f =
     (case get_column name f of
        Inl e \<Rightarrow> Inl e
      | Inr cs \<Rightarrow> Inr (with_columns name (map (\<lambda>c. if c = Null then v else c) cs) f))"

text \<open>
  The order of \<^verbatim>\<open>sort\<close>: nulls first, integers (the timestamps) by value. The code sorts
  on the \<^verbatim>\<open>datetime\<close> column only, so cells of the other types are not ordered among
  themselves here. Rows with equal keys keep their order in this model; polars promises
  that only with \<^verbatim>\<open>maintain_order=True\<close>, and nothing below depends on it.
\<close>

fun cell_key :: "cell \<Rightarrow> nat \<times> int" where
  "cell_key Null = (0, 0)"
| "cell_key (Int64 n) = (1, n)"
| "cell_key (Str s) = (2, 0)"
| "cell_key (Float64 x) = (2, 0)"

definition sort_by :: "string \<Rightarrow> frame \<Rightarrow> error + frame" where
  "sort_by name f =
     (if name \<in> set (columns f)
      then Inr (f\<lparr>rows := sort_key (\<lambda>r. cell_key (cell_of r name)) (rows f)\<rparr>)
      else Inl ColumnNotFoundError)"

text \<open>
  \<^verbatim>\<open>DataFrame.unique()\<close> keeps one row of each group of rows equal in every column. Its
  \<^verbatim>\<open>maintain_order\<close> defaults to \<^verbatim>\<open>False\<close>: the order in which the rows come out is not
  that of the input and not promised at all. It is the parameter \<open>arrange\<close>, some
  rearrangement of the rows kept.
\<close>

definition unique_rows :: "(row list \<Rightarrow> row list) \<Rightarrow> frame \<Rightarrow> frame" where
  "unique_rows arrange f = f\<lparr>rows := arrange (remdups (rows f))\<rparr>"

text \<open>
  The dtype of a column, read off its first cell that is not null; \<open>None\<close> is the dtype
  of a column that holds nulls only.
\<close>

datatype dtype = DString | DInt | DFloat

fun dtype_of :: "cell \<Rightarrow> dtype option" where
  "dtype_of Null = None"
| "dtype_of (Str u) = Some DString"
| "dtype_of (Int64 n) = Some DInt"
| "dtype_of (Float64 x) = Some DFloat"

definition column_dtype :: "string \<Rightarrow> frame \<Rightarrow> dtype option" where
  "column_dtype name f =
     (case filter (\<lambda>c. c \<noteq> Null) (map (\<lambda>r. cell_of r name) (rows f)) of
        [] \<Rightarrow> None
      | c # _ \<Rightarrow> dtype_of c)"

text \<open>
  \<^verbatim>\<open>pl.concat([a, b], how="vertical")\<close>: a frame without columns takes over the other one;
  otherwise the column names must agree (\<^verbatim>\<open>ShapeError\<close>), and so must the dtypes of the
  columns (\<^verbatim>\<open>SchemaError\<close>), a column of nulls only against a column of strings
  included. The dtypes being read off the cells, two frames are compared when both have
  rows.
\<close>

definition concat_vertical :: "frame \<Rightarrow> frame \<Rightarrow> error + frame" where
  "concat_vertical a b =
     (if columns a = [] then Inr b
      else if columns a \<noteq> columns b then Inl ShapeError
      else if rows a \<noteq> [] \<and> rows b \<noteq> []
              \<and> (\<exists>c \<in> set (columns a). column_dtype c a \<noteq> column_dtype c b)
           then Inl SchemaError
      else Inr \<lparr>columns = columns a, rows = rows a @ rows b\<rparr>)"

text \<open>\<^verbatim>\<open>gather_every(n)\<close>: the rows at positions 0, n, 2n, ...\<close>

function gather_every :: "nat \<Rightarrow> 'a list \<Rightarrow> 'a list" where
  "gather_every n [] = []"
| "gather_every n (x # xs) = x # gather_every n (drop (n - 1) xs)"
  by pat_completeness auto
termination
  by (relation "measure (\<lambda>(n, xs). length xs)") auto

section \<open>Checkpoints, loading and subsetting\<close>

text \<open>
  Sequencing inside a method: an exception ends it, and the object stays as the
  statements run so far have left it.
\<close>

definition then_do :: "outcome \<Rightarrow> (erddap_log_parser \<Rightarrow> outcome) \<Rightarrow> outcome" where
  "then_do r f = (case r of (None, s) \<Rightarrow> f s | (Some e, s) \<Rightarrow> (Some e, s))"

fun for_each :: "('a \<Rightarrow> erddap_log_parser \<Rightarrow> outcome) \<Rightarrow> 'a list \<Rightarrow> erddap_log_parser \<Rightarrow> outcome" where
  "for_each body [] s = (None, s)"
| "for_each body (x # xs) s = then_do (body x s) (for_each body xs)"

text \<open>
  \<^verbatim>\<open>_update_original_total_requests\<close> (an Isabelle name cannot begin with an underscore):
  the checkpoint. \<^verbatim>\<open>copy(self.df)\<close> is the same table, frames being values.
\<close>

definition update_original_total_requests :: "erddap_log_parser \<Rightarrow> erddap_log_parser" where
  "update_original_total_requests s =
     s\<lparr>original_total_requests := height (df s), unfiltered_df := Some (df s)\<rparr>"

text \<open>
  \<^verbatim>\<open>load_apache_logs\<close> and \<^verbatim>\<open>load_nginx_logs\<close>. Reading and parsing the log files is
  outside the model: \<open>parsed\<close> is what \<^verbatim>\<open>_load_apache_logs\<close> (or \<^verbatim>\<open>_load_nginx_logs\<close>)
  gives, the table of the batch or the \<^verbatim>\<open>ValueError\<close> raised when no file matches.
\<close>

definition merge_batch :: "(row list \<Rightarrow> row list) \<Rightarrow> frame \<Rightarrow> erddap_log_parser \<Rightarrow> outcome" where
  "merge_batch arrange batch s =
     (case concat_vertical (df s) batch of
        Inl e \<Rightarrow> (Some e, s)
      | Inr df_combi \<Rightarrow>
          (case sort_by ''datetime'' df_combi of
             Inl e \<Rightarrow> (Some e, s)
           | Inr sorted_combi \<Rightarrow>
               (None, update_original_total_requests
                        (s\<lparr>df := unique_rows arrange sorted_combi\<rparr>))))"

definition load_apache_logs ::
  "(row list \<Rightarrow> row list) \<Rightarrow> error + frame \<Rightarrow> erddap_log_parser \<Rightarrow> outcome" where
  "load_apache_logs arrange parsed s =
     (case parsed of Inl e \<Rightarrow> (Some e, s) | Inr df_apache \<Rightarrow> merge_batch arrange df_apache s)"

definition load_nginx_logs ::
  "(row list \<Rightarrow> row list) \<Rightarrow> error + frame \<Rightarrow> erddap_log_parser \<Rightarrow> outcome" where
  "load_nginx_logs arrange parsed s =
     (case parsed of Inl e \<Rightarrow> (Some e, s) | Inr df_nginx \<Rightarrow> merge_batch arrange df_nginx s)"

text \<open>
  \<^verbatim>\<open>subset_df(rows)\<close>: \<^verbatim>\<open>stride = int(height / rows)\<close> divides by zero for \<^verbatim>\<open>rows = 0\<close> and
  truncates towards zero (the float division is taken as exact). \<^verbatim>\<open>gather_every\<close> refuses
  the stride 0, which a table shorter than \<^verbatim>\<open>rows\<close> gives, with an
  \<^verbatim>\<open>InvalidOperationError\<close>, and a negative stride does not convert to its unsigned
  argument.
\<close>

definition subset_df :: "int \<Rightarrow> erddap_log_parser \<Rightarrow> outcome" where
  "subset_df n s =
     (if n = 0 then (Some ZeroDivisionError, s)
      else if int (height (df s)) div \<bar>n\<bar> = 0 then (Some InvalidOperationError, s)
      else if n < 0 then (Some OverflowError, s)
      else (None, update_original_total_requests
                    (s\<lparr>df := (df s)\<lparr>rows := gather_every (nat (int (height (df s)) div n))
                                                (rows (df s))\<rparr>\<rparr>)))"

definition undo_filter :: "erddap_log_parser \<Rightarrow> outcome" where
  "undo_filter s =
     (case unfiltered_df s of
        None \<Rightarrow> (Some AttributeError, s)
      | Some u \<Rightarrow> (None, update_original_total_requests (s\<lparr>df := u\<rparr>)))"

section \<open>The filters\<close>

text \<open>
  \<^verbatim>\<open>str.contains(pattern)\<close> takes a regular expression. In the patterns the code passes,
  the only character that is not literal is the dot, which stands for any character but a
  line break; \<^verbatim>\<open>(?i)\<close> in front makes the match ignore case (\<open>ci\<close>; of ASCII letters
  here). On a null the result is null.
\<close>

definition lower :: "char \<Rightarrow> char" where
  "lower c = (let n = of_char c :: nat in if 65 \<le> n \<and> n \<le> 90 then char_of (n + 32) else c)"

fun match_here :: "bool \<Rightarrow> string \<Rightarrow> string \<Rightarrow> bool" where
  "match_here ci [] s = True"
| "match_here ci (p # ps) [] = False"
| "match_here ci (p # ps) (c # cs) =
     ((if p = CHR ''.'' then c \<noteq> newline
       else if ci then lower p = lower c
       else p = c)
      \<and> match_here ci ps cs)"

fun regex_search :: "bool \<Rightarrow> string \<Rightarrow> string \<Rightarrow> bool" where
  "regex_search ci p [] = match_here ci p []"
| "regex_search ci p (c # cs) = (match_here ci p (c # cs) \<or> regex_search ci p cs)"

definition str_contains :: "bool \<Rightarrow> string \<Rightarrow> cell \<Rightarrow> bool option" where
  "str_contains ci p c = (case c of Str u \<Rightarrow> Some (regex_search ci p u) | _ \<Rightarrow> None)"

text \<open>\<^verbatim>\<open>~expr\<close>: the negation of a null is null.\<close>

definition negated :: "(cell \<Rightarrow> bool option) \<Rightarrow> cell \<Rightarrow> bool option" where
  "negated p c = map_option Not (p c)"

text \<open>\<^verbatim>\<open>self.df = self.df.filter(...)\<close>.\<close>

definition df_filter :: "string \<Rightarrow> (cell \<Rightarrow> bool option) \<Rightarrow> erddap_log_parser \<Rightarrow> outcome" where
  "df_filter name p s =
     (case filter_col name p (df s) of
        Inl e \<Rightarrow> (Some e, s)
      | Inr d \<Rightarrow> (None, s\<lparr>df := d\<rparr>))"

definition df_fill_null :: "string \<Rightarrow> cell \<Rightarrow> erddap_log_parser \<Rightarrow> outcome" where
  "df_fill_null name v s =
     (case fill_null name v (df s) of
        Inl e \<Rightarrow> (Some e, s)
      | Inr d \<Rightarrow> (None, s\<lparr>df := d\<rparr>))"

definition set_filter_name :: "string \<Rightarrow> erddap_log_parser \<Rightarrow> outcome" where
  "set_filter_name name s = (None, s\<lparr>filter_name := Some name\<rparr>)"

text \<open>
  The decorator \<^verbatim>\<open>_print_filter_stats\<close>. Its wrapper \<^verbatim>\<open>magic(self)\<close> takes no further
  argument, so every filter runs with its default arguments. With \<^verbatim>\<open>verbose\<close> set, the
  report divides by \<^verbatim>\<open>original_total_requests\<close>, after the filter has done its work.
\<close>

definition print_filter_stats :: "(erddap_log_parser \<Rightarrow> outcome) \<Rightarrow> erddap_log_parser \<Rightarrow> outcome" where
  "print_filter_stats call_wrap s =
     then_do (call_wrap s)
       (\<lambda>s'. if verbose s' \<and> original_total_requests s' = 0 then (Some ZeroDivisionError, s')
             else (None, s'))"

definition filter_non_erddap :: "erddap_log_parser \<Rightarrow> outcome" where
  "filter_non_erddap =
     print_filter_stats (\<lambda>s.
       then_do (set_filter_name ''non erddap'' s)
         (df_filter ''url'' (str_contains False ''erddap'')))"

definition filter_organisations :: "erddap_log_parser \<Rightarrow> outcome" where
  "filter_organisations =
     print_filter_stats (\<lambda>s.
       if ''org'' \<notin> set (columns (df s)) then (Some ValueError, s)
       else
         then_do (df_fill_null ''org'' (Str ''unknown'') s) (\<lambda>s.
         then_do (df_fill_null ''isp'' (Str ''unknown'') s) (\<lambda>s.
         then_do (for_each (\<lambda>block_org s.
                     then_do (df_filter ''org'' (negated (str_contains True block_org)) s)
                       (df_filter ''isp'' (negated (str_contains True block_org))))
                   [''Google'', ''Crawlers'', ''SEMrush''] s)
           (set_filter_name ''organisations''))))"

text \<open>
  \<^verbatim>\<open>parse(ua).is_bot\<close> comes from the \<^verbatim>\<open>user_agents\<close> package: the parameter \<open>is_bot\<close>.
\<close>

definition filter_user_agents :: "(string \<Rightarrow> bool) \<Rightarrow> erddap_log_parser \<Rightarrow> outcome" where
  "filter_user_agents is_bot =
     print_filter_stats (\<lambda>s.
       then_do (df_filter ''user-agent''
                  (negated (\<lambda>c. case c of Str ua \<Rightarrow> Some (is_bot ua) | _ \<Rightarrow> None)) s)
         (set_filter_name ''user agents''))"

definition filter_locales :: "erddap_log_parser \<Rightarrow> outcome" where
  "filter_locales =
     print_filter_stats (\<lambda>s.
       then_do (for_each (\<lambda>locale. df_filter ''url'' (negated (str_contains False locale)))
                  [''zh-CN'', ''zh-TW'', ''ZH''] s)
         (set_filter_name ''locales''))"

text \<open>
  \<^verbatim>\<open>Counter(xs).most_common()\<close>: the distinct values with their counts, the most frequent
  first, values of equal count in the order of their first occurrence.
\<close>

definition first_seen :: "'a list \<Rightarrow> 'a list" where
  "first_seen xs = rev (remdups (rev xs))"

definition most_common :: "'a list \<Rightarrow> ('a \<times> nat) list" where
  "most_common xs =
     sort_key (\<lambda>(k, c). - int c) (map (\<lambda>k. (k, count_list xs k)) (first_seen xs))"

text \<open>
  The inner loop of \<^verbatim>\<open>filter_spam\<close>: the page is appended once for every phrase found in
  it; \<^verbatim>\<open>phrase in page\<close> raises on a page that is not a string.
\<close>

definition bad_page_entries :: "string list \<Rightarrow> cell \<Rightarrow> error + cell list" where
  "bad_page_entries spam_strings page =
     (case page of
        Str u \<Rightarrow> Inr (concat (map (\<lambda>phrase. if contains phrase u then [page] else []) spam_strings))
      | _ \<Rightarrow> if spam_strings = [] then Inr [] else Inl TypeError)"

definition spam_strings :: "string list" where
  "spam_strings = [''.env'', ''env.'', ''.php'', ''.git'', ''robots.txt'', ''phpinfo'',
                   ''/config'', ''aws'', ''.xml'']"

definition filter_spam :: "erddap_log_parser \<Rightarrow> outcome" where
  "filter_spam =
     print_filter_stats (\<lambda>s.
       case get_column ''url'' (df s) of
         Inl e \<Rightarrow> (Some e, s)
       | Inr urls \<Rightarrow>
           (case collect (map (\<lambda>(page, count). bad_page_entries spam_strings page)
                           (most_common urls)) of
              Inl e \<Rightarrow> (Some e, s)
            | Inr found \<Rightarrow>
                then_do (df_filter ''url''
                           (\<lambda>c. if c = Null then None else Some (c \<notin> set (concat found))) s)
                  (set_filter_name ''spam'')))"

definition filter_files :: "erddap_log_parser \<Rightarrow> outcome" where
  "filter_files =
     print_filter_stats (\<lambda>s.
       then_do (df_filter ''url'' (negated (str_contains False ''/files'')) s)
         (set_filter_name ''files''))"

definition filter_common_strings :: "erddap_log_parser \<Rightarrow> outcome" where
  "filter_common_strings =
     print_filter_stats (\<lambda>s.
       then_do (for_each (\<lambda>string. df_filter ''url'' (negated (str_contains False string)))
                  [''/version'', ''favicon.ico'', ''.js'', ''.css'', ''/erddap/images''] s)
         (set_filter_name ''common strings''))"

text \<open>The seven filters, and a sequence of calls of them on one object.\<close>

datatype filter_call =
    NonErddap | Organisations | UserAgents | Locales | Spam | Files | CommonStrings

fun run_filter :: "(string \<Rightarrow> bool) \<Rightarrow> filter_call \<Rightarrow> erddap_log_parser \<Rightarrow> outcome" where
  "run_filter is_bot NonErddap = filter_non_erddap"
| "run_filter is_bot Organisations = filter_organisations"
| "run_filter is_bot UserAgents = filter_user_agents is_bot"
| "run_filter is_bot Locales = filter_locales"
| "run_filter is_bot Spam = filter_spam"
| "run_filter is_bot Files = filter_files"
| "run_filter is_bot CommonStrings = filter_common_strings"

text \<open>
  The object after a sequence of filter calls. A call that raises leaves the object as it
  is at that point, and the caller may go on with the next call.
\<close>

fun run_filters :: "(string \<Rightarrow> bool) \<Rightarrow> filter_call list \<Rightarrow> erddap_log_parser \<Rightarrow> erddap_log_parser" where
  "run_filters is_bot [] s = s"
| "run_filters is_bot (c # cs) s = run_filters is_bot cs (snd (run_filter is_bot c s))"

section \<open>What a filter leaves alone\<close>

definition rest_unchanged :: "erddap_log_parser \<Rightarrow> erddap_log_parser \<Rightarrow> bool" where
  "rest_unchanged s s' \<longleftrightarrow>
     unfiltered_df s' = unfiltered_df s \<and> original_total_requests s' = original_total_requests s
     \<and> ip s' = ip s \<and> df_xml s' = df_xml s \<and> verbose s' = verbose s
     \<and> location s' = location s \<and> anonymized s' = anonymized s"

lemma rest_unchanged_refl: "rest_unchanged s s"
  by (simp add: rest_unchanged_def)

lemma rest_unchanged_trans:
  "rest_unchanged s s' \<Longrightarrow> rest_unchanged s' s'' \<Longrightarrow> rest_unchanged s s''"
  by (simp add: rest_unchanged_def)

lemma rest_unchanged_then_do:
  assumes "rest_unchanged s (snd r)" and "\<And>s'. rest_unchanged s' (snd (f s'))"
  shows "rest_unchanged s (snd (then_do r f))"
proof (cases r)
  case (Pair e s')
  show ?thesis
  proof (cases e)
    case None
    with Pair assms(1) assms(2)[of s'] show ?thesis
      by (auto simp: then_do_def intro: rest_unchanged_trans)
  next
    case (Some x)
    with Pair assms(1) show ?thesis by (simp add: then_do_def)
  qed
qed

lemma rest_unchanged_for_each:
  assumes "\<And>x s'. rest_unchanged s' (snd (body x s'))"
  shows "rest_unchanged s (snd (for_each body xs s))"
proof (induction xs arbitrary: s)
  case Nil
  show ?case by (simp add: rest_unchanged_refl)
next
  case (Cons x xs)
  show ?case using assms Cons.IH by (simp add: rest_unchanged_then_do)
qed

lemma rest_unchanged_df_filter: "rest_unchanged s (snd (df_filter name p s))"
  by (simp add: df_filter_def rest_unchanged_def split: sum.splits)

lemma rest_unchanged_df_fill_null: "rest_unchanged s (snd (df_fill_null name v s))"
  by (simp add: df_fill_null_def rest_unchanged_def split: sum.splits)

lemma rest_unchanged_set_filter_name: "rest_unchanged s (snd (set_filter_name name s))"
  by (simp add: set_filter_name_def rest_unchanged_def)

lemma rest_unchanged_print_filter_stats:
  assumes "\<And>s. rest_unchanged s (snd (call_wrap s))"
  shows "rest_unchanged s (snd (print_filter_stats call_wrap s))"
  unfolding print_filter_stats_def
  by (rule rest_unchanged_then_do) (simp_all add: assms rest_unchanged_refl)

lemmas rest_unchanged_steps =
  rest_unchanged_then_do rest_unchanged_for_each rest_unchanged_df_filter
  rest_unchanged_df_fill_null rest_unchanged_set_filter_name rest_unchanged_refl

lemma rest_unchanged_filter_non_erddap: "rest_unchanged s (snd (filter_non_erddap s))"
  unfolding filter_non_erddap_def
  by (intro rest_unchanged_print_filter_stats rest_unchanged_steps)

lemma rest_unchanged_filter_organisations: "rest_unchanged s (snd (filter_organisations s))"
  unfolding filter_organisations_def
proof (rule rest_unchanged_print_filter_stats)
  fix s
  show "rest_unchanged s (snd (if ''org'' \<notin> set (columns (df s)) then (Some ValueError, s)
       else
         then_do (df_fill_null ''org'' (Str ''unknown'') s) (\<lambda>s.
         then_do (df_fill_null ''isp'' (Str ''unknown'') s) (\<lambda>s.
         then_do (for_each (\<lambda>block_org s.
                     then_do (df_filter ''org'' (negated (str_contains True block_org)) s)
                       (df_filter ''isp'' (negated (str_contains True block_org))))
                   [''Google'', ''Crawlers'', ''SEMrush''] s)
           (set_filter_name ''organisations'')))))"
  proof (cases "''org'' \<in> set (columns (df s))")
    case False
    then show ?thesis by (simp add: rest_unchanged_refl)
  next
    case True
    then show ?thesis
      by (simp only: not_True_eq_False if_False not_not) (intro rest_unchanged_steps)
  qed
qed

lemma rest_unchanged_filter_user_agents: "rest_unchanged s (snd (filter_user_agents is_bot s))"
  unfolding filter_user_agents_def
  by (intro rest_unchanged_print_filter_stats rest_unchanged_steps)

lemma rest_unchanged_filter_locales: "rest_unchanged s (snd (filter_locales s))"
  unfolding filter_locales_def
  by (intro rest_unchanged_print_filter_stats rest_unchanged_steps)

lemma rest_unchanged_filter_spam: "rest_unchanged s (snd (filter_spam s))"
  unfolding filter_spam_def
proof (rule rest_unchanged_print_filter_stats)
  fix s
  show "rest_unchanged s (snd (case get_column ''url'' (df s) of
         Inl e \<Rightarrow> (Some e, s)
       | Inr urls \<Rightarrow>
           (case collect (map (\<lambda>(page, count). bad_page_entries spam_strings page)
                           (most_common urls)) of
              Inl e \<Rightarrow> (Some e, s)
            | Inr found \<Rightarrow>
                then_do (df_filter ''url''
                           (\<lambda>c. if c = Null then None else Some (c \<notin> set (concat found))) s)
                  (set_filter_name ''spam''))))"
    by (auto split: sum.splits intro!: rest_unchanged_steps)
qed

lemma rest_unchanged_filter_files: "rest_unchanged s (snd (filter_files s))"
  unfolding filter_files_def
  by (intro rest_unchanged_print_filter_stats rest_unchanged_steps)

lemma rest_unchanged_filter_common_strings: "rest_unchanged s (snd (filter_common_strings s))"
  unfolding filter_common_strings_def
  by (intro rest_unchanged_print_filter_stats rest_unchanged_steps)

lemma rest_unchanged_run_filter: "rest_unchanged s (snd (run_filter is_bot c s))"
  by (cases c)
    (simp_all add: rest_unchanged_filter_non_erddap rest_unchanged_filter_organisations
       rest_unchanged_filter_user_agents rest_unchanged_filter_locales
       rest_unchanged_filter_spam rest_unchanged_filter_files
       rest_unchanged_filter_common_strings)

lemma rest_unchanged_run_filters: "rest_unchanged s (run_filters is_bot cs s)"
proof (induction cs arbitrary: s)
  case Nil
  show ?case by (simp add: rest_unchanged_refl)
next
  case (Cons c cs)
  have "rest_unchanged s (snd (run_filter is_bot c s))" by (rule rest_unchanged_run_filter)
  moreover have "rest_unchanged (snd (run_filter is_bot c s))
                   (run_filters is_bot cs (snd (run_filter is_bot c s)))"
    by (rule Cons.IH)
  ultimately show ?case by (simp add: rest_unchanged_trans)
qed

text \<open>
  Claim C9. Whichever of the seven filters is called, and whether the call returns or
  raises, the object afterwards differs from the object before in \<^verbatim>\<open>df\<close> and
  \<^verbatim>\<open>filter_name\<close> at most: the checkpoint snapshot \<^verbatim>\<open>unfiltered_df\<close>,
  \<^verbatim>\<open>original_total_requests\<close>, the IP cache table \<^verbatim>\<open>ip\<close>, the dataset registry table
  \<^verbatim>\<open>df_xml\<close> and every other attribute are the same.
\<close>

theorem filters_touch_only_df_and_filter_name:
  "unfiltered_df (snd (run_filter is_bot c s)) = unfiltered_df s
   \<and> original_total_requests (snd (run_filter is_bot c s)) = original_total_requests s
   \<and> ip (snd (run_filter is_bot c s)) = ip s
   \<and> df_xml (snd (run_filter is_bot c s)) = df_xml s
   \<and> verbose (snd (run_filter is_bot c s)) = verbose s
   \<and> location (snd (run_filter is_bot c s)) = location s
   \<and> anonymized (snd (run_filter is_bot c s)) = anonymized s"
  using rest_unchanged_run_filter[of s is_bot c] by (simp add: rest_unchanged_def)

section \<open>Undoing the filters\<close>

text \<open>
  Claim C3. Let \<open>u\<close> be the snapshot taken at the most recent checkpoint (every load,
  subset and undo that returns ends with one). After any sequence of filter calls,
  \<^verbatim>\<open>undo_filter\<close> returns and the current table is \<open>u\<close> again, row for row, however many
  filters ran in between; the snapshot and the count of the checkpoint are as they were,
  so there is one level of undo and no stack.
\<close>

theorem undo_filter_restores_checkpoint:
  assumes "unfiltered_df s = Some u"
  shows "fst (undo_filter (run_filters is_bot cs s)) = None
         \<and> df (snd (undo_filter (run_filters is_bot cs s))) = u
         \<and> unfiltered_df (snd (undo_filter (run_filters is_bot cs s))) = Some u
         \<and> original_total_requests (snd (undo_filter (run_filters is_bot cs s))) = height u"
proof -
  have "unfiltered_df (run_filters is_bot cs s) = Some u"
    using rest_unchanged_run_filters[of s is_bot cs] assms by (simp add: rest_unchanged_def)
  then show ?thesis
    by (simp add: undo_filter_def update_original_total_requests_def)
qed


text \<open>
  A batch of three log lines, one of them twice, and the table that loading it into a new
  parser gives when polars happens to keep the sorted order.
\<close>

definition demo_batch :: frame where
  "demo_batch =
     \<lparr>columns = [''ip'', ''datetime'', ''url'', ''user-agent'', ''status-code'', ''bytes-sent'',
                 ''referer''],
      rows = [[(''ip'', Str ''10.0.0.7''), (''datetime'', Int64 20),
               (''url'', Str ''/erddap/info/a.csv''), (''user-agent'', Str ''curl/8.0''),
               (''status-code'', Int64 200), (''bytes-sent'', Int64 512),
               (''referer'', Str ''-'')],
              [(''ip'', Str ''10.0.0.9''), (''datetime'', Int64 10),
               (''url'', Str ''/erddap/.env''), (''user-agent'', Str ''Mozilla/5.0''),
               (''status-code'', Int64 404), (''bytes-sent'', Int64 0),
               (''referer'', Str ''-'')],
              [(''ip'', Str ''10.0.0.7''), (''datetime'', Int64 20),
               (''url'', Str ''/erddap/info/a.csv''), (''user-agent'', Str ''curl/8.0''),
               (''status-code'', Int64 200), (''bytes-sent'', Int64 512),
               (''referer'', Str ''-'')]]\<rparr>"

definition demo_table :: frame where
  "demo_table =
     \<lparr>columns = [''ip'', ''datetime'', ''url'', ''user-agent'', ''status-code'', ''bytes-sent'',
                 ''referer''],
      rows = [[(''ip'', Str ''10.0.0.9''), (''datetime'', Int64 10),
               (''url'', Str ''/erddap/.env''), (''user-agent'', Str ''Mozilla/5.0''),
               (''status-code'', Int64 404), (''bytes-sent'', Int64 0),
               (''referer'', Str ''-'')],
              [(''ip'', Str ''10.0.0.7''), (''datetime'', Int64 20),
               (''url'', Str ''/erddap/info/a.csv''), (''user-agent'', Str ''curl/8.0''),
               (''status-code'', Int64 200), (''bytes-sent'', Int64 512),
               (''referer'', Str ''-'')]]\<rparr>"

theorem undo_filter_restores_checkpoint_witness:
  "unfiltered_df (snd (load_apache_logs (\<lambda>rs. rs) (Inr demo_batch) init)) = Some demo_table
   \<and> fst (undo_filter (run_filters (\<lambda>ua. False) [Spam, Files]
             (snd (load_apache_logs (\<lambda>rs. rs) (Inr demo_batch) init)))) = None
   \<and> df (snd (undo_filter (run_filters (\<lambda>ua. False) [Spam, Files]
             (snd (load_apache_logs (\<lambda>rs. rs) (Inr demo_batch) init))))) = demo_table"
proof -
  have h: "unfiltered_df (snd (load_apache_logs (\<lambda>rs. rs) (Inr demo_batch) init)) = Some demo_table"
    by code_simp
  from undo_filter_restores_checkpoint[OF h, of "\<lambda>ua. False" "[Spam, Files]"] h
  show ?thesis by simp
qed


text \<open>The operations that set a checkpoint leave the snapshot equal to the current table.\<close>

lemma merge_batch_checkpoint:
  "merge_batch arrange batch s = (None, s') \<Longrightarrow>
   unfiltered_df s' = Some (df s') \<and> original_total_requests s' = height (df s')"
  by (auto simp: merge_batch_def update_original_total_requests_def split: sum.splits)

lemma load_apache_logs_checkpoint:
  "load_apache_logs arrange parsed s = (None, s') \<Longrightarrow>
   unfiltered_df s' = Some (df s') \<and> original_total_requests s' = height (df s')"
  by (auto simp: load_apache_logs_def split: sum.splits dest: merge_batch_checkpoint)

lemma load_nginx_logs_checkpoint:
  "load_nginx_logs arrange parsed s = (None, s') \<Longrightarrow>
   unfiltered_df s' = Some (df s') \<and> original_total_requests s' = height (df s')"
  by (auto simp: load_nginx_logs_def split: sum.splits dest: merge_batch_checkpoint)

lemma subset_df_checkpoint:
  "subset_df n s = (None, s') \<Longrightarrow>
   unfiltered_df s' = Some (df s') \<and> original_total_requests s' = height (df s')"
  by (auto simp: subset_df_def update_original_total_requests_def split: if_splits)

lemma undo_filter_checkpoint:
  "undo_filter s = (None, s') \<Longrightarrow>
   unfiltered_df s' = Some (df s') \<and> original_total_requests s' = height (df s')"
  by (auto simp: undo_filter_def update_original_total_requests_def split: option.splits)

lemma filters_drop_rows_example:
  "map (\<lambda>r. cell_of r ''url'')
     (rows (df (run_filters (\<lambda>ua. False) [Spam, Files]
                  (snd (load_apache_logs (\<lambda>rs. rs) (Inr demo_batch) init)))))
   = [Str ''/erddap/info/a.csv'']"
  by code_simp

section \<open>Merging batches\<close>

text \<open>
  Whatever order \<^verbatim>\<open>unique()\<close> emits, the merged table holds every row of the old table and
  of the batch, each once.
\<close>

lemma merge_batch_no_duplicates:
  assumes perm: "\<forall>xs. mset (arrange xs) = mset xs"
    and run: "merge_batch arrange batch s = (None, s')"
  shows "distinct (rows (df s'))"
proof -
  from run obtain d where "df s' = unique_rows arrange d"
    by (auto simp: merge_batch_def update_original_total_requests_def split: sum.splits)
  moreover have "distinct (arrange (remdups (rows d)))"
    using perm by (metis distinct_remdups mset_eq_imp_distinct_iff)
  ultimately show ?thesis by (simp add: unique_rows_def)
qed

lemma merge_batch_rows:
  assumes perm: "\<forall>xs. mset (arrange xs) = mset xs"
    and run: "merge_batch arrange batch s = (None, s')"
    and cols: "columns (df s) = columns batch"
  shows "set (rows (df s')) = set (rows (df s)) \<union> set (rows batch)"
proof -
  have set_arr: "set (arrange xs) = set xs" for xs
    using perm by (metis mset_eq_setD)
  from run cols show ?thesis
    by (auto simp: merge_batch_def update_original_total_requests_def unique_rows_def
          concat_vertical_def sort_by_def set_arr split: sum.splits if_splits)
qed

text \<open>
  Claim C5. The merged table has no two equal rows (\<open>merge_batch_no_duplicates\<close>), but it
  is not sorted by construction: the code sorts first and removes duplicates afterwards,
  with \<^verbatim>\<open>unique()\<close>, which does not keep the order of its input. Where polars emits the two
  distinct rows of the batch in the other order (\<open>rev\<close>), \<^verbatim>\<open>load_apache_logs\<close> returns
  with the later timestamp first.
\<close>

theorem merge_batch_unsorted_example:
  "fst (load_apache_logs rev (Inr demo_batch) init) = None
   \<and> map (\<lambda>r. cell_of r ''datetime'') (rows (df (snd (load_apache_logs rev (Inr demo_batch) init))))
     = [Int64 20, Int64 10]"
  by code_simp

section \<open>IP enrichment\<close>

text \<open>
  The external lookup service answers a request with a status code and a body;
  \<^verbatim>\<open>resp_raw.json()\<close> gives the JSON object of the body as a dictionary of scalars, or
  raises when the body is not JSON (\<open>None\<close>). The service may answer the same address
  differently over time: \<open>service k addr\<close> is its answer to a request for \<open>addr\<close> when \<open>k\<close>
  requests went before it in the run.
\<close>

datatype http_response = Response (status_code: int) (json: "row option")

definition align :: "string list \<Rightarrow> row \<Rightarrow> row" where
  "align cols r = map (\<lambda>c. (c, cell_of r c)) cols"

text \<open>
  \<^verbatim>\<open>pl.concat((a, b), how="diagonal")\<close>: the union of the columns, missing values filled
  with null; a column that the two frames hold with different dtypes is a
  \<^verbatim>\<open>SchemaError\<close>.
\<close>

definition concat_diagonal :: "frame \<Rightarrow> frame \<Rightarrow> error + frame" where
  "concat_diagonal a b =
     (if \<exists>c \<in> set (columns a). c \<in> set (columns b) \<and> column_dtype c a \<noteq> None
            \<and> column_dtype c b \<noteq> None \<and> column_dtype c a \<noteq> column_dtype c b
      then Inl SchemaError
      else (let cols = columns a @ filter (\<lambda>c. c \<notin> set (columns a)) (columns b)
            in Inr \<lparr>columns = cols, rows = map (align cols) (rows a @ rows b)\<rparr>))"

text \<open>\<^verbatim>\<open>pl.DataFrame(resp)\<close> of a dictionary of scalars: one row.\<close>

definition frame_of_dict :: "row \<Rightarrow> frame" where
  "frame_of_dict resp = \<lparr>columns = map fst resp, rows = [resp]\<rparr>"

text \<open>
  The \<^verbatim>\<open>try\<close> block of the loop: a response that does not fit the schema of the cache is
  skipped.
\<close>

definition merge_response :: "frame \<Rightarrow> row \<Rightarrow> frame" where
  "merge_response df_ip resp =
     (case concat_diagonal df_ip (frame_of_dict resp) of
        Inl e \<Rightarrow> df_ip
      | Inr merged \<Rightarrow> merged)"

text \<open>The cache the code starts from when there is no file: one row of empty values.\<close>

definition default_ip_info :: frame where
  "default_ip_info =
     \<lparr>columns = [''status'', ''country'', ''countryCode'', ''region'', ''regionName'', ''city'',
                  ''zip'', ''lat'', ''lon'', ''timezone'', ''isp'', ''org'', ''as'', ''query''],
      rows = [[(''status'', Str ''''), (''country'', Str ''''), (''countryCode'', Str ''''),
               (''region'', Str ''''), (''regionName'', Str ''''), (''city'', Str ''''),
               (''zip'', Str ''''), (''lat'', Float64 ''0.0''), (''lon'', Float64 ''0.0''),
               (''timezone'', Str ''''), (''isp'', Str ''''), (''org'', Str ''''),
               (''as'', Str ''''), (''query'', Str '''')]]\<rparr>"

text \<open>
  The loop \<^verbatim>\<open>for ip, count in ip_counts\<close> of \<^verbatim>\<open>_get_ip_info\<close>, with the list of the
  addresses it has requested from the service, in the order of the requests, beside its
  result. \<open>fetched_ips\<close> counts the requests, so it is also the number of requests that
  went before the next one.
\<close>

fun fetch_loop ::
  "(nat \<Rightarrow> cell \<Rightarrow> http_response) \<Rightarrow> int \<Rightarrow> (cell \<times> nat) list \<Rightarrow> nat \<Rightarrow> frame
   \<Rightarrow> cell list \<times> (error + frame)" where
  "fetch_loop service num_new_ips [] fetched_ips df_ip = ([], Inr df_ip)"
| "fetch_loop service num_new_ips ((addr, cnt) # rest) fetched_ips df_ip =
     (case get_column ''query'' df_ip of
        Inl e \<Rightarrow> ([], Inl e)
      | Inr known \<Rightarrow>
          if addr \<in> set known then fetch_loop service num_new_ips rest fetched_ips df_ip
          else if num_new_ips \<le> int fetched_ips then ([], Inr df_ip)
          else if status_code (service fetched_ips addr) = 429 then ([addr], Inr df_ip)
          else (case json (service fetched_ips addr) of
                  None \<Rightarrow> ([addr], Inl JSONDecodeError)
                | Some resp \<Rightarrow>
                    (case fetch_loop service num_new_ips rest (Suc fetched_ips)
                            (merge_response df_ip resp) of
                       (requested, result) \<Rightarrow> (addr # requested, result))))"

text \<open>
  \<^verbatim>\<open>_get_ip_info\<close> (an Isabelle name cannot begin with an underscore). \<open>csv\<close> is the
  table in the file \<^verbatim>\<open>ip_info_csv\<close>, if the file exists. The result is the list of the
  addresses requested from the service, the table in the file afterwards, and what the
  call returns or raises; the file is written at the end, so not when the call raises.
\<close>

definition module_get_ip_info ::
  "(nat \<Rightarrow> cell \<Rightarrow> http_response) \<Rightarrow> frame option \<Rightarrow> frame \<Rightarrow> bool \<Rightarrow> int
   \<Rightarrow> cell list \<times> frame option \<times> (error + frame)" where
  "module_get_ip_info service csv d download_new num_new_ips =
     (case get_column ''ip'' d of
        Inl e \<Rightarrow> ([], csv, Inl e)
      | Inr ips \<Rightarrow>
          (let ip_counts = most_common ips;
               df_ip = (case csv of Some cached \<Rightarrow> cached | None \<Rightarrow> default_ip_info)
           in if download_new
              then (case fetch_loop service num_new_ips ip_counts 0 df_ip of
                      (requested, Inl e) \<Rightarrow> (requested, csv, Inl e)
                    | (requested, Inr df_ip') \<Rightarrow> (requested, Some df_ip', Inr df_ip'))
              else ([], Some df_ip, Inr df_ip)))"

text \<open>
  \<^verbatim>\<open>left.join(right, left_on=..., right_on=..., how="left")\<close>: every row of the left table
  once for each row of the right table with the same key, or once with nulls; a null key
  matches nothing. The key column of the right table is dropped, and a right column with
  the name of a left one gets the suffix \<^verbatim>\<open>_right\<close>.
\<close>

definition join_left :: "string \<Rightarrow> string \<Rightarrow> frame \<Rightarrow> frame \<Rightarrow> error + frame" where
  "join_left left_on right_on l r =
     (if left_on \<notin> set (columns l) \<or> right_on \<notin> set (columns r) then Inl ColumnNotFoundError
      else (let others = filter (\<lambda>c. c \<noteq> right_on) (columns r);
                rename = (\<lambda>c. if c \<in> set (columns l) then c @ ''_right'' else c)
            in Inr \<lparr>columns = columns l @ map rename others,
                    rows = concat (map (\<lambda>lr.
                      case filter (\<lambda>rr. cell_of lr left_on \<noteq> Null
                                        \<and> cell_of rr right_on = cell_of lr left_on) (rows r) of
                        [] \<Rightarrow> [lr @ map (\<lambda>c. (rename c, Null)) others]
                      | ms \<Rightarrow> map (\<lambda>rr. lr @ map (\<lambda>c. (rename c, cell_of rr c)) others) ms)
                      (rows l))\<rparr>))"

text \<open>
  The method \<^verbatim>\<open>get_ip_info\<close>, with the requests issued and the cache file afterwards
  beside its outcome.
\<close>

definition get_ip_info ::
  "(nat \<Rightarrow> cell \<Rightarrow> http_response) \<Rightarrow> frame option \<Rightarrow> bool \<Rightarrow> int \<Rightarrow> erddap_log_parser
   \<Rightarrow> cell list \<times> frame option \<times> outcome" where
  "get_ip_info service csv download_new num_ips s =
     (if ''country'' \<in> set (columns (df s)) then ([], csv, (None, s))
      else (case module_get_ip_info service csv (df s) download_new num_ips of
              (requested, csv', Inl e) \<Rightarrow> (requested, csv', (Some e, s))
            | (requested, csv', Inr df_ip) \<Rightarrow>
                (case join_left ''ip'' ''query'' (df s) df_ip of
                   Inl e \<Rightarrow> (requested, csv', (Some e, s\<lparr>ip := df_ip\<rparr>))
                 | Inr joined \<Rightarrow>
                     (case sort_by ''datetime'' joined of
                        Inl e \<Rightarrow> (requested, csv', (Some e, s\<lparr>ip := df_ip\<rparr>))
                      | Inr sorted_joined \<Rightarrow>
                          (requested, csv', (None, s\<lparr>ip := df_ip, df := sorted_joined\<rparr>))))))"

subsection \<open>The fetch budget and the order of the requests\<close>

text \<open>The six ways one round of the loop can go.\<close>

lemma fetch_loop_round:
  obtains
    (no_query) e where "fetch_loop service n ((addr, cnt) # rest) k d = ([], Inl e)"
  | (known) "fetch_loop service n ((addr, cnt) # rest) k d = fetch_loop service n rest k d"
  | (budget) "n \<le> int k" "fetch_loop service n ((addr, cnt) # rest) k d = ([], Inr d)"
  | (limited) "\<not> n \<le> int k" "status_code (service k addr) = 429"
      "fetch_loop service n ((addr, cnt) # rest) k d = ([addr], Inr d)"
  | (no_json) "\<not> n \<le> int k" "status_code (service k addr) \<noteq> 429"
      "json (service k addr) = None"
      "fetch_loop service n ((addr, cnt) # rest) k d = ([addr], Inl JSONDecodeError)"
  | (merged) resp where "\<not> n \<le> int k" "status_code (service k addr) \<noteq> 429"
      "json (service k addr) = Some resp"
      "fetch_loop service n ((addr, cnt) # rest) k d
       = (addr # fst (fetch_loop service n rest (Suc k) (merge_response d resp)),
          snd (fetch_loop service n rest (Suc k) (merge_response d resp)))"
proof (cases "get_column ''query'' d")
  case (Inl e)
  then have "fetch_loop service n ((addr, cnt) # rest) k d = ([], Inl e)" by simp
  then show ?thesis by (rule no_query)
next
  case (Inr known_ips)
  show ?thesis
  proof (cases "addr \<in> set known_ips")
    case True
    with Inr have "fetch_loop service n ((addr, cnt) # rest) k d = fetch_loop service n rest k d"
      by simp
    then show ?thesis by (rule known)
  next
    case unknown: False
    show ?thesis
    proof (cases "n \<le> int k")
      case True
      with Inr unknown have "fetch_loop service n ((addr, cnt) # rest) k d = ([], Inr d)" by simp
      with True show ?thesis by (rule budget)
    next
      case within: False
      show ?thesis
      proof (cases "status_code (service k addr) = 429")
        case True
        with Inr unknown within
        have "fetch_loop service n ((addr, cnt) # rest) k d = ([addr], Inr d)" by simp
        with within True show ?thesis by (rule limited)
      next
        case ok: False
        show ?thesis
        proof (cases "json (service k addr)")
          case None
          with Inr unknown within ok
          have "fetch_loop service n ((addr, cnt) # rest) k d = ([addr], Inl JSONDecodeError)"
            by simp
          with within ok None show ?thesis by (rule no_json)
        next
          case (Some resp)
          with Inr unknown within ok
          have "fetch_loop service n ((addr, cnt) # rest) k d
                = (addr # fst (fetch_loop service n rest (Suc k) (merge_response d resp)),
                   snd (fetch_loop service n rest (Suc k) (merge_response d resp)))"
            by (simp add: case_prod_unfold)
          with within ok Some show ?thesis by (rule merged)
        qed
      qed
    qed
  qed
qed

declare fetch_loop.simps(2) [simp del]

lemma fetch_loop_bound:
  "int (length (fst (fetch_loop service n cs k d))) \<le> max 0 (n - int k)"
proof (induction cs arbitrary: k d)
  case Nil
  show ?case by simp
next
  case (Cons p cs)
  obtain addr cnt where p: "p = (addr, cnt)" by (cases p)
  have "int (length (fst (fetch_loop service n ((addr, cnt) # cs) k d))) \<le> max 0 (n - int k)"
  proof (cases rule: fetch_loop_round[of service n addr cnt cs k d])
    case (no_query e)
    then show ?thesis by simp
  next
    case known
    then show ?thesis using Cons.IH[of k d] by simp
  next
    case budget
    then show ?thesis by simp
  next
    case limited
    then show ?thesis by simp
  next
    case no_json
    then show ?thesis by simp
  next
    case (merged resp)
    have "int (length (fst (fetch_loop service n cs (Suc k) (merge_response d resp))))
          \<le> max 0 (n - int (Suc k))"
      by (rule Cons.IH)
    with merged(1,4) show ?thesis by simp
  qed
  then show ?case by (simp only: p)
qed

lemma fetch_loop_requests_subset:
  "set (fst (fetch_loop service n cs k d)) \<subseteq> fst ` set cs"
proof (induction cs arbitrary: k d)
  case Nil
  show ?case by simp
next
  case (Cons p cs)
  obtain addr cnt where p: "p = (addr, cnt)" by (cases p)
  have "set (fst (fetch_loop service n ((addr, cnt) # cs) k d)) \<subseteq> insert addr (fst ` set cs)"
  proof (cases rule: fetch_loop_round[of service n addr cnt cs k d])
    case known
    then show ?thesis using Cons.IH[of k d] by auto
  next
    case (merged resp)
    then show ?thesis using Cons.IH[of "Suc k" "merge_response d resp"] by auto
  qed simp_all
  then show ?case by (simp add: p)
qed

lemma fetch_loop_requests_sorted:
  "sorted_wrt R (map fst cs) \<Longrightarrow> sorted_wrt R (fst (fetch_loop service n cs k d))"
proof (induction cs arbitrary: k d)
  case Nil
  show ?case by simp
next
  case (Cons p cs)
  obtain addr cnt where p: "p = (addr, cnt)" by (cases p)
  from Cons.prems have tail: "sorted_wrt R (map fst cs)"
    and head: "\<forall>a \<in> fst ` set cs. R addr a" by (auto simp: p)
  have "sorted_wrt R (fst (fetch_loop service n ((addr, cnt) # cs) k d))"
  proof (cases rule: fetch_loop_round[of service n addr cnt cs k d])
    case known
    then show ?thesis using Cons.IH[OF tail, of k d] by simp
  next
    case (merged resp)
    then show ?thesis
      using Cons.IH[OF tail, of "Suc k" "merge_response d resp"] head
        fetch_loop_requests_subset[of service n cs "Suc k" "merge_response d resp"]
      by auto
  qed simp_all
  then show ?case by (simp only: p)
qed

lemma first_seen_set: "set (first_seen xs) = set xs"
  by (simp add: first_seen_def)

lemma most_common_counts: "(a, c) \<in> set (most_common xs) \<Longrightarrow> c = count_list xs a"
  by (auto simp: most_common_def)

lemma most_common_members: "fst ` set (most_common xs) = set xs"
  by (force simp: most_common_def first_seen_set)

lemma most_common_descending:
  "sorted_wrt (\<lambda>a b. count_list xs b \<le> count_list xs a) (map fst (most_common xs))"
proof -
  have "sorted (map (\<lambda>(a, c). - int c) (most_common xs))"
    unfolding most_common_def by (rule sorted_sort_key)
  then have "sorted_wrt (\<lambda>p q. (case p of (a, c) \<Rightarrow> - int c) \<le> (case q of (a, c) \<Rightarrow> - int c))
               (most_common xs)"
    by (simp add: sorted_map)
  moreover have "count_list xs (fst q) \<le> count_list xs (fst p)"
    if "p \<in> set (most_common xs)" "q \<in> set (most_common xs)"
      "(case p of (a, c) \<Rightarrow> - int c) \<le> (case q of (a, c) \<Rightarrow> - int c)" for p q
  proof -
    obtain a c b e where pq: "p = (a, c)" "q = (b, e)" by (cases p, cases q)
    with that(1,2) have "c = count_list xs a" "e = count_list xs b"
      by (auto dest: most_common_counts)
    with that(3) pq show ?thesis by simp
  qed
  ultimately have "sorted_wrt (\<lambda>p q. count_list xs (fst q) \<le> count_list xs (fst p)) (most_common xs)"
    by (rule sorted_wrt_mono_rel[rotated])
  then show ?thesis by (simp add: sorted_wrt_map)
qed

lemma most_common_distinct: "distinct (map fst (most_common xs))"
proof -
  have "mset (map fst (most_common xs)) = mset (first_seen xs)"
    unfolding most_common_def by (simp add: image_mset.compositionality comp_def)
  moreover have "distinct (first_seen xs)" by (simp add: first_seen_def)
  ultimately show ?thesis by (metis mset_eq_imp_distinct_iff)
qed

text \<open>
  Claim C2. One call of \<^verbatim>\<open>_get_ip_info\<close> requests at most \<^verbatim>\<open>num_new_ips\<close> addresses from
  the service (none for a budget below 1), however many addresses of the table the cache
  does not know, and however the service answers. The addresses are requested in
  descending order of their frequency in the \<^verbatim>\<open>ip\<close> column of the table.
\<close>

theorem fetch_budget_and_order:
  "int (length (fst (module_get_ip_info service csv d download_new num_new_ips)))
     \<le> max 0 num_new_ips
   \<and> sorted_wrt (\<lambda>a b. count_list (map (\<lambda>r. cell_of r ''ip'') (rows d)) b
                       \<le> count_list (map (\<lambda>r. cell_of r ''ip'') (rows d)) a)
         (fst (module_get_ip_info service csv d download_new num_new_ips))"
proof (cases "''ip'' \<in> set (columns d) \<and> download_new")
  case False
  then have "fst (module_get_ip_info service csv d download_new num_new_ips) = []"
    by (auto simp: module_get_ip_info_def get_column_def Let_def)
  then show ?thesis by simp
next
  case True
  define ips where "ips = map (\<lambda>r. cell_of r ''ip'') (rows d)"
  define df_ip where "df_ip = (case csv of Some cached \<Rightarrow> cached | None \<Rightarrow> default_ip_info)"
  have reqs: "fst (module_get_ip_info service csv d download_new num_new_ips)
              = fst (fetch_loop service num_new_ips (most_common ips) 0 df_ip)"
    using True
    by (simp add: module_get_ip_info_def get_column_def Let_def ips_def df_ip_def
          split: prod.splits sum.splits)
  have "int (length (fst (fetch_loop service num_new_ips (most_common ips) 0 df_ip)))
        \<le> max 0 (num_new_ips - int 0)"
    by (rule fetch_loop_bound)
  moreover have "sorted_wrt (\<lambda>a b. count_list ips b \<le> count_list ips a)
                   (fst (fetch_loop service num_new_ips (most_common ips) 0 df_ip))"
    using most_common_descending by (rule fetch_loop_requests_sorted)
  ultimately show ?thesis unfolding reqs ips_def by simp
qed

subsection \<open>The rate limit\<close>

text \<open>The dictionary of an answer; the loop reads it after the check of the status code.\<close>

definition response_dict :: "http_response \<Rightarrow> row" where
  "response_dict r = (case json r of Some resp \<Rightarrow> resp | None \<Rightarrow> [])"

text \<open>
  What \<^verbatim>\<open>pl.concat(..., how="diagonal")\<close> in the loop keeps and adds: the columns and the
  rows of the cache stay, with their cells; an answer that fits the schema of the cache
  becomes one more row, the last one, which holds every value of the answer under its
  key.
\<close>

lemma map_of_tabulate:
  "map_of (map (\<lambda>c. (c, f c)) cols) c = (if c \<in> set cols then Some (f c) else None)"
  by (induction cols) auto

lemma cell_of_align: "cell_of (align cols r) c = (if c \<in> set cols then cell_of r c else Null)"
proof -
  have "cell_of (align cols r) c
        = (case map_of (map (\<lambda>c. (c, cell_of r c)) cols) c of Some v \<Rightarrow> v | None \<Rightarrow> Null)"
    unfolding align_def by (rule cell_of_def)
  then show ?thesis by (simp add: map_of_tabulate)
qed

lemma columns_merge_response: "set (columns d) \<subseteq> set (columns (merge_response d resp))"
  by (auto simp: merge_response_def concat_diagonal_def Let_def)

lemma length_rows_merge_response: "length (rows d) \<le> length (rows (merge_response d resp))"
  by (auto simp: merge_response_def concat_diagonal_def Let_def)

lemma merge_response_keeps_cells:
  assumes "c \<in> set (columns d)" "i < length (rows d)"
  shows "cell_of (rows (merge_response d resp) ! i) c = cell_of (rows d ! i) c"
  using assms
  by (auto simp: merge_response_def concat_diagonal_def Let_def nth_append cell_of_align)

lemma merge_response_adds:
  assumes "concat_diagonal d (frame_of_dict resp) = Inr m"
  shows "merge_response d resp = m"
    and "length (rows m) = Suc (length (rows d))"
    and "c \<in> set (map fst resp) \<Longrightarrow> c \<in> set (columns m)"
    and "c \<in> set (map fst resp) \<Longrightarrow> cell_of (rows m ! length (rows d)) c = cell_of resp c"
proof -
  define cols where
    "cols = columns d @ filter (\<lambda>c. c \<notin> set (columns d)) (columns (frame_of_dict resp))"
  from assms have m: "m = \<lparr>columns = cols, rows = map (align cols) (rows d @ [resp])\<rparr>"
    by (simp add: concat_diagonal_def Let_def cols_def frame_of_dict_def split: if_splits)
  from assms show "merge_response d resp = m" by (simp add: merge_response_def)
  show "length (rows m) = Suc (length (rows d))" by (simp add: m)
  have in_cols: "c \<in> set cols" if "c \<in> set (map fst resp)"
    using that by (auto simp: cols_def frame_of_dict_def)
  then show "c \<in> set (map fst resp) \<Longrightarrow> c \<in> set (columns m)" by (simp add: m)
  have "rows m ! length (rows d) = align cols resp"
    by (simp add: m nth_append)
  with in_cols show "c \<in> set (map fst resp) \<Longrightarrow> cell_of (rows m ! length (rows d)) c = cell_of resp c"
    by (simp add: cell_of_align)
qed

text \<open>
  The same for a run of answers merged one after the other: the rows the cache started
  with keep their cells, and each answer that fitted when its turn came is held by a row
  after them.
\<close>

lemma merge_all_keeps:
  "set (columns d) \<subseteq> set (columns (foldl merge_response d rs))
   \<and> length (rows d) \<le> length (rows (foldl merge_response d rs))
   \<and> (\<forall>i < length (rows d). \<forall>c \<in> set (columns d).
         cell_of (rows (foldl merge_response d rs) ! i) c = cell_of (rows d ! i) c)"
proof (induction rs arbitrary: d)
  case Nil
  show ?case by simp
next
  case (Cons r rs)
  let ?d = "merge_response d r"
  note ih = Cons.IH[of ?d]
  have c: "set (columns d) \<subseteq> set (columns ?d)" by (rule columns_merge_response)
  have l: "length (rows d) \<le> length (rows ?d)" by (rule length_rows_merge_response)
  have "cell_of (rows (foldl merge_response ?d rs) ! i) c = cell_of (rows d ! i) c"
    if "i < length (rows d)" "c \<in> set (columns d)" for i c
  proof -
    from that l c have "i < length (rows ?d)" "c \<in> set (columns ?d)" by auto
    with ih have "cell_of (rows (foldl merge_response ?d rs) ! i) c = cell_of (rows ?d ! i) c"
      by blast
    also have "\<dots> = cell_of (rows d ! i) c"
      using that by (simp add: merge_response_keeps_cells)
    finally show ?thesis .
  qed
  moreover from ih c have "set (columns d) \<subseteq> set (columns (foldl merge_response ?d rs))"
    by blast
  moreover from ih l have "length (rows d) \<le> length (rows (foldl merge_response ?d rs))"
    by linarith
  ultimately show ?case by simp
qed

lemma merge_all_holds:
  assumes j: "j < i"
    and fits: "concat_diagonal (foldl merge_response d (map f [0..<j])) (frame_of_dict (f j)) = Inr m"
  shows "\<exists>k. length (rows d) \<le> k
             \<and> k < length (rows (foldl merge_response d (map f [0..<i])))
             \<and> (\<forall>c \<in> set (map fst (f j)).
                   cell_of (rows (foldl merge_response d (map f [0..<i])) ! k) c
                   = cell_of (f j) c)"
proof -
  define dj where "dj = foldl merge_response d (map f [0..<j])"
  define T where "T = foldl merge_response d (map f [0..<i])"
  have "[0..<i] = [0..<j] @ j # [Suc j..<i]"
    using j by (metis less_imp_le_nat upt_add_eq_append upt_conv_Cons le_add_diff_inverse zero_le add_0)
  then have T: "T = foldl merge_response (merge_response dj (f j)) (map f [Suc j..<i])"
    by (simp add: T_def dj_def)
  note adds = merge_response_adds[OF fits[folded dj_def]]
  have T': "T = foldl merge_response m (map f [Suc j..<i])"
    using T adds(1) by simp
  note keeps = merge_all_keeps[of m "map f [Suc j..<i]", folded T']
  have k0: "length (rows d) \<le> length (rows dj)"
    unfolding dj_def using merge_all_keeps[of d "map f [0..<j]"] by blast
  have k1: "length (rows dj) < length (rows T)"
    using keeps adds(2) by linarith
  have k2: "cell_of (rows T ! length (rows dj)) c = cell_of (f j) c"
    if c: "c \<in> set (map fst (f j))" for c
  proof -
    have "length (rows dj) < length (rows m)" using adds(2) by simp
    moreover have "c \<in> set (columns m)" using c by (rule adds(3))
    ultimately have "cell_of (rows T ! length (rows dj)) c = cell_of (rows m ! length (rows dj)) c"
      using keeps by blast
    also have "\<dots> = cell_of (f j) c" using c by (rule adds(4))
    finally show ?thesis .
  qed
  from k0 k1 k2 show ?thesis unfolding T_def by blast
qed

lemma fetch_loop_rate_limited:
  assumes "fetch_loop service n cs k d = (requested, result)"
    and "i < length requested"
    and "status_code (service (k + i) (requested ! i)) = 429"
  shows "Suc i = length requested
         \<and> (\<forall>j < i. status_code (service (k + j) (requested ! j)) \<noteq> 429
                    \<and> json (service (k + j) (requested ! j)) \<noteq> None)
         \<and> result = Inr (foldl merge_response d
                           (map (\<lambda>j. response_dict (service (k + j) (requested ! j))) [0..<i]))"
  using assms
proof (induction cs arbitrary: k d requested result i)
  case Nil
  then show ?case by simp
next
  case (Cons p cs)
  obtain addr cnt where p: "p = (addr, cnt)" by (cases p)
  from Cons.prems(1) have run: "fetch_loop service n ((addr, cnt) # cs) k d = (requested, result)"
    by (simp only: p)
  show ?case
  proof (cases rule: fetch_loop_round[of service n addr cnt cs k d])
    case (no_query e)
    with run Cons.prems(2) show ?thesis by simp
  next
    case known
    with run have "fetch_loop service n cs k d = (requested, result)" by simp
    from Cons.IH[OF this Cons.prems(2,3)] show ?thesis .
  next
    case budget
    with run Cons.prems(2) show ?thesis by simp
  next
    case limited
    with run Cons.prems(2) show ?thesis by auto
  next
    case no_json
    with run Cons.prems(2,3) show ?thesis by auto
  next
    case (merged resp)
    define rest where "rest = fst (fetch_loop service n cs (Suc k) (merge_response d resp))"
    from merged(4) run have requested: "requested = addr # rest"
      and rest_run: "fetch_loop service n cs (Suc k) (merge_response d resp) = (rest, result)"
      by (auto simp: rest_def)
    show ?thesis
    proof (cases i)
      case 0
      with Cons.prems(3) requested merged(2) show ?thesis by simp
    next
      case (Suc i')
      with Cons.prems(2,3) requested have i': "i' < length rest"
        and lim: "status_code (service (Suc k + i') (rest ! i')) = 429" by simp_all
      from Cons.IH[OF rest_run i' lim]
      have len: "Suc i' = length rest"
        and earlier: "\<forall>j < i'. status_code (service (Suc k + j) (rest ! j)) \<noteq> 429
                    \<and> json (service (Suc k + j) (rest ! j)) \<noteq> None"
        and res: "result = Inr (foldl merge_response (merge_response d resp)
                    (map (\<lambda>j. response_dict (service (Suc k + j) (rest ! j))) [0..<i']))"
        by simp_all
      have "map (\<lambda>j. response_dict (service (k + j) (requested ! j))) [0..<Suc i']
            = resp # map (\<lambda>j. response_dict (service (Suc k + j) (rest ! j))) [0..<i']"
        using merged(3) requested by (simp add: map_upt_Suc response_dict_def del: upt_Suc)
      moreover have "status_code (service (k + j) (requested ! j)) \<noteq> 429
                    \<and> json (service (k + j) (requested ! j)) \<noteq> None" if "j < Suc i'" for j
      proof (cases j)
        case 0
        with merged(2,3) requested show ?thesis by simp
      next
        case (Suc j')
        with that earlier requested show ?thesis by simp
      qed
      ultimately show ?thesis using len res requested Suc by simp
    qed
  qed
qed

text \<open>
  Claim C6. If the service answers a request of the run with status 429, that request
  is the last one of the run, and every earlier request of the run was answered with
  another status and a JSON body. The call returns, not raises, and the table \<open>kept\<close> it
  returns is also the table it has written to the cache file. That table is the cache
  the run started from with the answers to all the earlier requests merged into it, one
  after the other. Nothing of what was there is lost: every row of the starting cache is
  in \<open>kept\<close> at its position, with its cells in the columns of the cache. And every entry
  fetched so far is there: for each earlier answer that \<^verbatim>\<open>pl.concat\<close> accepted when its
  turn came (the \<^verbatim>\<open>try\<close> block skips an answer that does not fit the schema), a row of
  \<open>kept\<close> after those of the starting cache holds every value of the answer under its key.
\<close>

theorem rate_limit_stops_fetching:
  assumes "module_get_ip_info service csv d download_new num_new_ips = (requested, csv', result)"
    and "i < length requested"
    and "status_code (service i (requested ! i)) = 429"
  shows "Suc i = length requested
         \<and> (\<forall>j < i. status_code (service j (requested ! j)) \<noteq> 429
                    \<and> json (service j (requested ! j)) \<noteq> None)
         \<and> (\<exists>kept. result = Inr kept \<and> csv' = Some kept
              \<and> kept = foldl merge_response
                         (case csv of Some cached \<Rightarrow> cached | None \<Rightarrow> default_ip_info)
                         (map (\<lambda>j. response_dict (service j (requested ! j))) [0..<i])
              \<and> (\<forall>k < length (rows (case csv of Some cached \<Rightarrow> cached | None \<Rightarrow> default_ip_info)).
                  \<forall>c \<in> set (columns (case csv of Some cached \<Rightarrow> cached | None \<Rightarrow> default_ip_info)).
                    k < length (rows kept)
                    \<and> cell_of (rows kept ! k) c
                        = cell_of (rows (case csv of Some cached \<Rightarrow> cached
                                         | None \<Rightarrow> default_ip_info) ! k) c)
              \<and> (\<forall>j < i. \<forall>merged.
                    concat_diagonal
                      (foldl merge_response
                         (case csv of Some cached \<Rightarrow> cached | None \<Rightarrow> default_ip_info)
                         (map (\<lambda>j. response_dict (service j (requested ! j))) [0..<j]))
                      (frame_of_dict (response_dict (service j (requested ! j)))) = Inr merged
                    \<longrightarrow> (\<exists>k. length (rows (case csv of Some cached \<Rightarrow> cached
                                              | None \<Rightarrow> default_ip_info)) \<le> k
                            \<and> k < length (rows kept)
                            \<and> (\<forall>c \<in> set (map fst (response_dict (service j (requested ! j)))).
                                  cell_of (rows kept ! k) c
                                  = cell_of (response_dict (service j (requested ! j))) c))))"
proof -
  define df_ip where "df_ip = (case csv of Some cached \<Rightarrow> cached | None \<Rightarrow> default_ip_info)"
  define f where "f = (\<lambda>j. response_dict (service j (requested ! j)))"
  define kept where "kept = foldl merge_response df_ip (map f [0..<i])"
  from assms(1,2) obtain ips where ips: "get_column ''ip'' d = Inr ips" and dl: download_new
    by (auto simp: module_get_ip_info_def Let_def split: sum.splits if_splits)
  obtain res where loop: "fetch_loop service num_new_ips (most_common ips) 0 df_ip = (requested, res)"
    using assms(1) ips dl
    by (auto simp: module_get_ip_info_def Let_def df_ip_def split: sum.splits prod.splits)
  from fetch_loop_rate_limited[OF loop assms(2)] assms(3)
  have len: "Suc i = length requested"
    and earlier: "\<forall>j < i. status_code (service j (requested ! j)) \<noteq> 429
                    \<and> json (service j (requested ! j)) \<noteq> None"
    and res: "res = Inr kept"
    by (simp_all add: kept_def f_def)
  from assms(1) ips dl loop res
  have result: "result = Inr kept" and csv': "csv' = Some kept"
    by (auto simp: module_get_ip_info_def Let_def df_ip_def[symmetric])
  have old: "\<forall>k < length (rows df_ip). \<forall>c \<in> set (columns df_ip).
               k < length (rows kept) \<and> cell_of (rows kept ! k) c = cell_of (rows df_ip ! k) c"
    using merge_all_keeps[of df_ip "map f [0..<i]"] unfolding kept_def by auto
  have new: "\<forall>j < i. \<forall>merged.
               concat_diagonal (foldl merge_response df_ip (map f [0..<j])) (frame_of_dict (f j))
                 = Inr merged
               \<longrightarrow> (\<exists>k. length (rows df_ip) \<le> k \<and> k < length (rows kept)
                       \<and> (\<forall>c \<in> set (map fst (f j)). cell_of (rows kept ! k) c = cell_of (f j) c))"
    unfolding kept_def using merge_all_holds[of _ i df_ip f] by blast
  have "\<exists>kept'. result = Inr kept' \<and> csv' = Some kept'
          \<and> kept' = foldl merge_response df_ip (map f [0..<i])
          \<and> (\<forall>k < length (rows df_ip). \<forall>c \<in> set (columns df_ip).
               k < length (rows kept') \<and> cell_of (rows kept' ! k) c = cell_of (rows df_ip ! k) c)
          \<and> (\<forall>j < i. \<forall>merged.
               concat_diagonal (foldl merge_response df_ip (map f [0..<j])) (frame_of_dict (f j))
                 = Inr merged
               \<longrightarrow> (\<exists>k. length (rows df_ip) \<le> k \<and> k < length (rows kept')
                       \<and> (\<forall>c \<in> set (map fst (f j)). cell_of (rows kept' ! k) c = cell_of (f j) c)))"
    using result csv' old new kept_def
    by - (rule exI[of _ kept], intro conjI; assumption)
  with len earlier show ?thesis
    unfolding df_ip_def f_def by - (intro conjI; assumption)
qed


text \<open>
  A table with three addresses, one of them twice, and a service that answers the first
  request of a run and then signals the rate limit. The cache after the run: the row of
  empty values it starts with when there is no file, and the row of the one answer.
\<close>

definition demo_ips :: frame where
  "demo_ips =
     \<lparr>columns = [''ip'', ''datetime''],
      rows = [[(''ip'', Str ''10.0.0.7''), (''datetime'', Int64 10)],
              [(''ip'', Str ''10.0.0.9''), (''datetime'', Int64 20)],
              [(''ip'', Str ''10.0.0.9''), (''datetime'', Int64 30)],
              [(''ip'', Str ''10.0.0.4''), (''datetime'', Int64 40)]]\<rparr>"

definition demo_service :: "nat \<Rightarrow> cell \<Rightarrow> http_response" where
  "demo_service k addr =
     (if k < 1 then Response 200 (Some [(''status'', Str ''success''), (''country'', Str ''Norway''),
                                         (''lat'', Float64 ''59.9''), (''query'', addr)])
      else Response 429 None)"


definition demo_cache :: frame where
  "demo_cache =
     \<lparr>columns = [''status'', ''country'', ''countryCode'', ''region'', ''regionName'', ''city'',
                  ''zip'', ''lat'', ''lon'', ''timezone'', ''isp'', ''org'', ''as'', ''query''],
      rows = [[(''status'', Str ''''), (''country'', Str ''''), (''countryCode'', Str ''''),
               (''region'', Str ''''), (''regionName'', Str ''''), (''city'', Str ''''),
               (''zip'', Str ''''), (''lat'', Float64 ''0.0''), (''lon'', Float64 ''0.0''),
               (''timezone'', Str ''''), (''isp'', Str ''''), (''org'', Str ''''),
               (''as'', Str ''''), (''query'', Str '''')],
              [(''status'', Str ''success''), (''country'', Str ''Norway''),
               (''countryCode'', Null), (''region'', Null), (''regionName'', Null),
               (''city'', Null), (''zip'', Null), (''lat'', Float64 ''59.9''), (''lon'', Null),
               (''timezone'', Null), (''isp'', Null), (''org'', Null), (''as'', Null),
               (''query'', Str ''10.0.0.9'')]]\<rparr>"

theorem rate_limit_stops_fetching_witness:
  "module_get_ip_info demo_service None demo_ips True 60
     = ([Str ''10.0.0.9'', Str ''10.0.0.7''], Some demo_cache, Inr demo_cache)
   \<and> 1 < length [Str ''10.0.0.9'', Str ''10.0.0.7'']
   \<and> status_code (demo_service 1 ([Str ''10.0.0.9'', Str ''10.0.0.7''] ! 1)) = 429
   \<and> Suc 1 = length [Str ''10.0.0.9'', Str ''10.0.0.7'']
   \<and> length (rows demo_cache) = 2
   \<and> cell_of (rows demo_cache ! 0) ''query'' = Str ''''
   \<and> cell_of (rows demo_cache ! 1) ''query'' = Str ''10.0.0.9''
   \<and> cell_of (rows demo_cache ! 1) ''country'' = Str ''Norway''"
proof -
  let ?requested = "[Str ''10.0.0.9'', Str ''10.0.0.7'']"
  let ?start = "case None of Some cached \<Rightarrow> cached | None \<Rightarrow> default_ip_info"
  let ?f = "\<lambda>j. response_dict (demo_service j (?requested ! j))"
  have run: "module_get_ip_info demo_service None demo_ips True 60
     = (?requested, Some demo_cache, Inr demo_cache)"
    by code_simp
  have i: "1 < length ?requested" by simp
  have lim: "status_code (demo_service 1 (?requested ! 1)) = 429"
    by (simp add: demo_service_def)
  from rate_limit_stops_fetching[OF run i lim] obtain kept where
    len: "Suc 1 = length ?requested"
    and "\<forall>j < 1. status_code (demo_service j (?requested ! j)) \<noteq> 429
                  \<and> json (demo_service j (?requested ! j)) \<noteq> None"
    and r: "(Inr demo_cache :: error + frame) = Inr kept"
    and "Some demo_cache = Some kept"
    and "kept = foldl merge_response ?start (map ?f [0..<1])"
    and old: "\<forall>k < length (rows ?start). \<forall>c \<in> set (columns ?start).
                k < length (rows kept)
                \<and> cell_of (rows kept ! k) c = cell_of (rows ?start ! k) c"
    and new: "\<forall>j < 1. \<forall>merged.
                concat_diagonal (foldl merge_response ?start (map ?f [0..<j]))
                  (frame_of_dict (?f j)) = Inr merged
                \<longrightarrow> (\<exists>k. length (rows ?start) \<le> k \<and> k < length (rows kept)
                        \<and> (\<forall>c \<in> set (map fst (?f j)).
                              cell_of (rows kept ! k) c = cell_of (?f j) c))"
    by (elim exE conjE) (rule that)
  from r have kept: "kept = demo_cache" by simp
  have l2: "length (rows demo_cache) = 2" by (simp add: demo_cache_def)
  have l1: "length (rows ?start) = 1" by (simp add: default_ip_info_def)
  have q: "''query'' \<in> set (columns ?start)" by (simp add: default_ip_info_def)
  have q0: "cell_of (rows ?start ! 0) ''query'' = Str ''''"
    by (simp add: default_ip_info_def cell_of_def)
  have z: "0 < length (rows ?start)" by (simp add: default_ip_info_def)
  from old[rule_format, OF z q]
  have "cell_of (rows kept ! 0) ''query'' = cell_of (rows ?start ! 0) ''query''"
    by (rule conjunct2)
  then have c0: "cell_of (rows demo_cache ! 0) ''query'' = Str ''''"
    by (simp only: kept q0)
  have fit: "concat_diagonal (foldl merge_response ?start (map ?f [0..<0]))
               (frame_of_dict (?f 0)) = Inr demo_cache"
    by code_simp
  from new[rule_format, OF zero_less_one fit] obtain k where
    k: "length (rows ?start) \<le> k" "k < length (rows kept)"
    and cells: "\<forall>c \<in> set (map fst (?f 0)). cell_of (rows kept ! k) c = cell_of (?f 0) c"
    by (elim exE conjE)
  from k l1 l2 kept have k1: "k = 1" by simp
  have keys: "''query'' \<in> set (map fst (?f 0))" "''country'' \<in> set (map fst (?f 0))"
    by (simp_all add: response_dict_def demo_service_def)
  have vals: "cell_of (?f 0) ''query'' = Str ''10.0.0.9''"
    "cell_of (?f 0) ''country'' = Str ''Norway''"
    by (simp_all add: response_dict_def demo_service_def cell_of_def)
  have c1: "cell_of (rows demo_cache ! 1) ''query'' = Str ''10.0.0.9''"
    using cells[rule_format, OF keys(1)] vals(1) kept k1 by simp
  have c2: "cell_of (rows demo_cache ! 1) ''country'' = Str ''Norway''"
    using cells[rule_format, OF keys(2)] vals(2) kept k1 by simp
  from run i lim len l2 c0 c1 c2 show ?thesis
    by - (intro conjI; assumption)
qed

theorem fetch_budget_and_order_witness:
  "int (length (fst (module_get_ip_info (\<lambda>k. demo_service 0) None demo_ips True 2))) \<le> max 0 2
   \<and> fst (module_get_ip_info (\<lambda>k. demo_service 0) None demo_ips True 2)
       = [Str ''10.0.0.9'', Str ''10.0.0.7'']"
proof -
  have "fst (module_get_ip_info (\<lambda>k. demo_service 0) None demo_ips True 2)
        = [Str ''10.0.0.9'', Str ''10.0.0.7'']"
    by code_simp
  with fetch_budget_and_order[of "\<lambda>k. demo_service 0" None demo_ips True 2]
  show ?thesis by simp
qed

subsection \<open>The guard of the method\<close>

text \<open>
  Claim C4. On a table that has a \<^verbatim>\<open>country\<close> column already, \<^verbatim>\<open>get_ip_info\<close> returns at
  once: no request goes to the service, the cache file is not touched, and the object,
  its table included, is as before.
\<close>

theorem get_ip_info_guard:
  assumes "''country'' \<in> set (columns (df s))"
  shows "get_ip_info service csv download_new num_ips s = ([], csv, (None, s))"
  using assms by (simp add: get_ip_info_def)

definition demo_enriched :: erddap_log_parser where
  "demo_enriched =
     snd (snd (snd (get_ip_info demo_service None True 60 (init\<lparr>df := demo_ips\<rparr>))))"

theorem get_ip_info_guard_witness:
  "''country'' \<in> set (columns (df demo_enriched))
   \<and> get_ip_info demo_service (Some demo_cache) True 60 demo_enriched
       = ([], Some demo_cache, (None, demo_enriched))"
proof -
  have c: "''country'' \<in> set (columns (df demo_enriched))" by code_simp
  from get_ip_info_guard[OF c] c show ?thesis by simp
qed

subsection \<open>What merging keeps, and the second call\<close>

lemma fetch_loop_columns:
  "fetch_loop service n cs k d = (requested, Inr d') \<Longrightarrow> set (columns d) \<subseteq> set (columns d')"
proof (induction cs arbitrary: k d requested)
  case Nil
  then show ?case by simp
next
  case (Cons p cs)
  obtain addr cnt where p: "p = (addr, cnt)" by (cases p)
  from Cons.prems have run: "fetch_loop service n ((addr, cnt) # cs) k d = (requested, Inr d')"
    by (simp only: p)
  show ?case
  proof (cases rule: fetch_loop_round[of service n addr cnt cs k d])
    case known
    with run Cons.IH[of k d requested] show ?thesis by simp
  next
    case (merged resp)
    with run have "fetch_loop service n cs (Suc k) (merge_response d resp)
                   = (fst (fetch_loop service n cs (Suc k) (merge_response d resp)), Inr d')"
      by (metis prod.collapse snd_conv)
    from Cons.IH[OF this] columns_merge_response[of d resp] show ?thesis by blast
  qed (use run in auto)
qed

lemma sort_by_Inr:
  "sort_by name f = Inr g \<Longrightarrow> columns g = columns f \<and> set (rows g) = set (rows f)"
  by (auto simp: sort_by_def split: if_splits)

lemma get_ip_info_adds_country:
  assumes run: "get_ip_info service csv download_new num_ips s = (requested, csv', (None, s'))"
    and cache: "\<And>cached. csv = Some cached \<Longrightarrow> ''country'' \<in> set (columns cached)"
  shows "''country'' \<in> set (columns (df s'))"
proof (cases "''country'' \<in> set (columns (df s))")
  case True
  with run show ?thesis by (simp add: get_ip_info_def)
next
  case False
  define df_ip0 where "df_ip0 = (case csv of Some cached \<Rightarrow> cached | None \<Rightarrow> default_ip_info)"
  have c0: "''country'' \<in> set (columns df_ip0)"
    using cache by (cases csv) (simp_all add: df_ip0_def default_ip_info_def)
  from run False obtain df_ip joined where
    m: "module_get_ip_info service csv (df s) download_new num_ips = (requested, csv', Inr df_ip)"
    and j: "join_left ''ip'' ''query'' (df s) df_ip = Inr joined"
    and so: "sort_by ''datetime'' joined = Inr (df s')"
    by (auto simp: get_ip_info_def split: prod.splits sum.splits)
  have "''country'' \<in> set (columns df_ip)"
  proof (cases download_new)
    case True
    with m obtain ips where
      "fetch_loop service num_ips (most_common ips) 0 df_ip0 = (requested, Inr df_ip)"
      by (auto simp: module_get_ip_info_def Let_def df_ip0_def split: sum.splits prod.splits)
    from fetch_loop_columns[OF this] c0 show ?thesis by blast
  next
    case False
    with m c0 show ?thesis
      by (auto simp: module_get_ip_info_def Let_def df_ip0_def split: sum.splits)
  qed
  with j False have "''country'' \<in> set (columns joined)"
    by (auto simp: join_left_def Let_def split: if_splits)
  moreover from so have "columns (df s') = columns joined"
    by (simp add: sort_by_Inr)
  ultimately show ?thesis by simp
qed

lemma get_ip_info_twice:
  assumes "get_ip_info service csv download_new num_ips s = (requested, csv', (None, s'))"
    and "\<And>cached. csv = Some cached \<Longrightarrow> ''country'' \<in> set (columns cached)"
  shows "get_ip_info service' csv' download_new' num_ips' s' = ([], csv', (None, s'))"
  using get_ip_info_adds_country[OF assms] by (simp add: get_ip_info_def)

section \<open>Deriving the analytic columns\<close>

text \<open>
  \<^verbatim>\<open>_parse_columns\<close> takes its string columns to pandas. A cell of a pandas column of
  strings is a string, \<^verbatim>\<open>None\<close> (a null of polars, and the padding that
  \<^verbatim>\<open>expand=True\<close> gives a row with fewer parts than the longest) or \<^verbatim>\<open>NaN\<close> (what
  \<^verbatim>\<open>+\<close> yields on a missing value). The \<^verbatim>\<open>.str\<close> methods leave a missing value as it
  is.
\<close>

datatype pcell = PStr string | PNone | PNaN

text \<open>
  \<^verbatim>\<open>column.to_pandas().str\<close>: the accessor refuses a column of numbers. The loaders make
  \<^verbatim>\<open>url\<close>, \<^verbatim>\<open>user-agent\<close> and \<^verbatim>\<open>ip\<close> columns of strings.
\<close>

definition to_pandas :: "cell \<Rightarrow> pcell" where
  "to_pandas c = (case c of Str u \<Rightarrow> PStr u | _ \<Rightarrow> PNone)"

definition str_accessor :: "cell list \<Rightarrow> error + pcell list" where
  "str_accessor cs =
     (if list_ex (\<lambda>c. case c of Int64 n \<Rightarrow> True | Float64 x \<Rightarrow> True | _ \<Rightarrow> False) cs
      then Inl AttributeError
      else Inr (map to_pandas cs))"

text \<open>\<^verbatim>\<open>.str.replace(" ", "")\<close>.\<close>

definition str_replace_spaces :: "pcell \<Rightarrow> pcell" where
  "str_replace_spaces p =
     (case p of PStr u \<Rightarrow> PStr (filter (\<lambda>c. c \<noteq> CHR '' '') u) | _ \<Rightarrow> p)"

text \<open>Python's \<^verbatim>\<open>u.split(sep)\<close> for a separator of one character: never an empty list.\<close>

fun split_char :: "char \<Rightarrow> string \<Rightarrow> string list" where
  "split_char sep [] = [[]]"
| "split_char sep (c # cs) =
     (if c = sep then [] # split_char sep cs
      else (case split_char sep cs of
              [] \<Rightarrow> [[c]]
            | part # parts \<Rightarrow> (c # part) # parts))"

text \<open>
  \<^verbatim>\<open>series.str.split(sep, expand=True)[k]\<close>. The expanded table is as wide as the longest
  list of parts (a missing value counts as one part; an empty series gives no column at
  all), and asking for a column it does not have raises \<^verbatim>\<open>KeyError\<close>. In column \<open>k\<close>, a
  row with fewer parts holds \<^verbatim>\<open>None\<close>, and a row whose value was missing holds that
  missing value. A separator of one character is taken literally.
\<close>

definition split_width :: "char \<Rightarrow> pcell list \<Rightarrow> nat" where
  "split_width sep ps =
     foldr max (map (\<lambda>p. case p of PStr u \<Rightarrow> length (split_char sep u) | _ \<Rightarrow> 1) ps) 0"

definition split_cell :: "char \<Rightarrow> nat \<Rightarrow> pcell \<Rightarrow> pcell" where
  "split_cell sep k p =
     (case p of
        PStr u \<Rightarrow> (if k < length (split_char sep u) then PStr (split_char sep u ! k) else PNone)
      | _ \<Rightarrow> p)"

definition split_col :: "char \<Rightarrow> nat \<Rightarrow> pcell list \<Rightarrow> error + pcell list" where
  "split_col sep k ps =
     (if k < split_width sep ps then Inr (map (split_cell sep k) ps) else Inl KeyError)"

text \<open>
  \<^verbatim>\<open>.astype(str)\<close> is Python's \<^verbatim>\<open>str\<close> on every value, the missing ones included (so in
  the pandas versions before 3.0, for which the code was written).
\<close>

definition astype_str :: "pcell \<Rightarrow> string" where
  "astype_str p = (case p of PStr u \<Rightarrow> u | PNone \<Rightarrow> ''None'' | PNaN \<Rightarrow> ''nan'')"

text \<open>
  \<^verbatim>\<open>.values\<close> handed to \<^verbatim>\<open>with_columns\<close>: after \<^verbatim>\<open>astype(str)\<close> a column of strings.
  Without it (for \<^verbatim>\<open>user_agent_base\<close>, \<^verbatim>\<open>ip_group\<close> and \<^verbatim>\<open>ip_subnet\<close>) a \<^verbatim>\<open>None\<close>
  arrives as a null, and polars refuses the float \<^verbatim>\<open>NaN\<close> among strings with a
  \<^verbatim>\<open>TypeError\<close>.
\<close>

definition str_values :: "pcell list \<Rightarrow> cell list" where
  "str_values ps = map (\<lambda>p. Str (astype_str p)) ps"

definition raw_values :: "pcell list \<Rightarrow> error + cell list" where
  "raw_values ps =
     (if PNaN \<in> set ps then Inl TypeError
      else Inr (map (\<lambda>p. case p of PStr u \<Rightarrow> Str u | _ \<Rightarrow> Null) ps))"

text \<open>\<^verbatim>\<open>+\<close> on two pandas columns of strings, or on one and a string.\<close>

definition str_add :: "pcell \<Rightarrow> pcell \<Rightarrow> pcell" where
  "str_add p q = (case (p, q) of (PStr u, PStr v) \<Rightarrow> PStr (u @ v) | _ \<Rightarrow> PNaN)"

text \<open>\<^verbatim>\<open>url_parts.loc[url_parts[2] == keyword, "protocol"] = keyword\<close>.\<close>

definition loc_assign :: "pcell list \<Rightarrow> string \<Rightarrow> pcell list \<Rightarrow> pcell list" where
  "loc_assign segment keyword protocol =
     map (\<lambda>(seg, p). if seg = PStr keyword then PStr keyword else p) (zip segment protocol)"

definition and_then :: "error + 'a \<Rightarrow> ('a \<Rightarrow> error + 'b) \<Rightarrow> error + 'b" where
  "and_then x f = (case x of Inl e \<Rightarrow> Inl e | Inr v \<Rightarrow> f v)"

text \<open>
  \<^verbatim>\<open>_parse_columns\<close> (an Isabelle name cannot begin with an underscore), statement by
  statement, in the three parts of its body: the columns derived from the URL, from the
  user agent, and from the IP address. \<open>d\<close> is the variable \<^verbatim>\<open>df\<close> of the code, assigned
  again and again.
\<close>

definition derive_url_columns :: "frame \<Rightarrow> error + frame" where
  "derive_url_columns d =
     and_then (get_column ''url'' d) (\<lambda>url.
     and_then (str_accessor url) (\<lambda>url.
     and_then (split_col CHR ''?'' 0 (map str_replace_spaces url)) (\<lambda>df_parts0.
     and_then (split_col CHR ''.'' 0 df_parts0) (\<lambda>base_url.
     (let d = with_columns ''base_url'' (str_values base_url) d
      in
     and_then (str_accessor (column ''base_url'' d)) (\<lambda>base_url.
     and_then (split_col CHR ''/'' 2 base_url) (\<lambda>url_parts2.
     (let protocol = map (\<lambda>p. PNone) base_url;
          protocol = loc_assign url_parts2 ''tabledap'' protocol;
          protocol = loc_assign url_parts2 ''griddap'' protocol;
          protocol = loc_assign url_parts2 ''files'' protocol;
          protocol = loc_assign url_parts2 ''info'' protocol
      in
     and_then (split_col CHR ''/'' 3 base_url) (\<lambda>dataset_id.
     (let d = with_columns ''erddap_request_type'' (str_values protocol) d;
          d = with_columns ''dataset_id'' (str_values dataset_id) d;
          d = with_columns ''dataset_id''
                (map (\<lambda>(request_type, dataset_id).
                        if request_type = Null then Null else dataset_id)
                   (zip (column ''erddap_request_type'' d) (column ''dataset_id'' d))) d
      in
     and_then (split_col CHR ''?'' 1 (map str_replace_spaces url)) (\<lambda>df_parts1.
     (let d = with_columns ''request_kwargs'' (str_values df_parts1) d
      in
     and_then (split_col CHR ''.'' 1 df_parts0) (\<lambda>file_type.
     Inr (with_columns ''file_type'' (str_values file_type) d))))))))))))))"

definition derive_user_agent_base :: "frame \<Rightarrow> error + frame" where
  "derive_user_agent_base d =
     and_then (get_column ''user-agent'' d) (\<lambda>user_agent.
     and_then (str_accessor user_agent) (\<lambda>user_agent.
     and_then (split_col CHR '' '' 0 user_agent) (\<lambda>first_token.
     and_then (split_col CHR ''/'' 0 first_token) (\<lambda>user_agent_base.
     and_then (raw_values user_agent_base) (\<lambda>user_agent_base.
     Inr (with_columns ''user_agent_base'' user_agent_base d))))))"

definition derive_ip_groups :: "frame \<Rightarrow> error + frame" where
  "derive_ip_groups d =
     and_then (get_column ''ip'' d) (\<lambda>ips.
     and_then (str_accessor ips) (\<lambda>ips.
     and_then (split_col CHR ''.'' 0 ips) (\<lambda>ip_grid0.
     and_then (split_col CHR ''.'' 1 ips) (\<lambda>ip_grid1.
     (let ip_group = map (\<lambda>(a, b). str_add (str_add a (PStr ''.'')) b) (zip ip_grid0 ip_grid1)
      in
     and_then (split_col CHR ''.'' 2 ips) (\<lambda>ip_grid2.
     (let ip_subnet = map (\<lambda>(ab, c). str_add (str_add ab (PStr ''.'')) c)
                        (zip ip_group ip_grid2)
      in
     and_then (raw_values ip_group) (\<lambda>ip_group.
     (let d = with_columns ''ip_group'' ip_group d
      in
     and_then (raw_values ip_subnet) (\<lambda>ip_subnet.
     Inr (with_columns ''ip_subnet'' ip_subnet d)))))))))))"

definition module_parse_columns :: "frame \<Rightarrow> error + frame" where
  "module_parse_columns d =
     and_then (fill_null ''country'' (Str ''unknown'') d) (\<lambda>d.
     and_then (derive_url_columns d) (\<lambda>d.
     and_then (derive_user_agent_base d) (\<lambda>d.
     and_then (derive_ip_groups d) (\<lambda>d.
     sort_by ''datetime'' d))))"

text \<open>
  The method \<^verbatim>\<open>parse_columns\<close>: the derived columns, and the dataset types joined on when
  a registry has been read.
\<close>

definition parse_columns :: "erddap_log_parser \<Rightarrow> outcome" where
  "parse_columns s =
     (case module_parse_columns (df s) of
        Inl e \<Rightarrow> (Some e, s)
      | Inr d \<Rightarrow>
          if height (df_xml s) = 0 then (None, s\<lparr>df := d\<rparr>)
          else (case join_left ''dataset_id'' ''dataset_id'' d (df_xml s) of
                  Inl e \<Rightarrow> (Some e, s\<lparr>df := d\<rparr>)
                | Inr joined \<Rightarrow>
                    (case sort_by ''datetime'' joined of
                       Inl e \<Rightarrow> (Some e, s\<lparr>df := d\<rparr>)
                     | Inr sorted_joined \<Rightarrow> (None, s\<lparr>df := sorted_joined\<rparr>))))"

text \<open>
  Two requests: one for a table of a dataset, with two dots in its file name, and one for
  the search page, which has four path segments and none of the four protocol keywords.
\<close>

definition demo_requests :: frame where
  "demo_requests =
     \<lparr>columns = [''ip'', ''datetime'', ''url'', ''user-agent'', ''status-code'', ''bytes-sent'',
                 ''referer'', ''country''],
      rows = [[(''ip'', Str ''10.0.0.7''), (''datetime'', Int64 20),
               (''url'', Str ''/erddap/tabledap/buoy.v2.csv?time&lat''),
               (''user-agent'', Str ''curl/8.0''), (''status-code'', Int64 200),
               (''bytes-sent'', Int64 512), (''referer'', Str ''-''),
               (''country'', Str ''Norway'')],
              [(''ip'', Str ''10.0.0.9''), (''datetime'', Int64 10),
               (''url'', Str ''/erddap/search/index.html?page=1''),
               (''user-agent'', Str ''Mozilla/5.0 (X11)''), (''status-code'', Int64 200),
               (''bytes-sent'', Int64 2048), (''referer'', Str ''-''), (''country'', Null)]]\<rparr>"

subsection \<open>Columns of a table built by \<open>with_columns\<close>\<close>

lemma and_then_Inr:
  "and_then x f = Inr g \<Longrightarrow> (\<And>v. x = Inr v \<Longrightarrow> f v = Inr g \<Longrightarrow> thesis) \<Longrightarrow> thesis"
  by (cases x) (simp_all add: and_then_def)

lemma split_col_Inr: "split_col sep k ps = Inr vs \<Longrightarrow> vs = map (split_cell sep k) ps \<and> k < split_width sep ps"
  by (auto simp: split_col_def split: if_splits)

lemma str_accessor_Inr:
  "str_accessor cs = Inr ps \<Longrightarrow> ps = map to_pandas cs"
  by (auto simp: str_accessor_def split: if_splits)

lemma get_column_Inr: "get_column name f = Inr cs \<Longrightarrow> cs = column name f"
  by (auto simp: get_column_def column_def split: if_splits)

lemma height_with_columns [simp]:
  "length vals = height f \<Longrightarrow> height (with_columns name vals f) = height f"
  by (simp add: with_columns_def height_def)

lemma length_column [simp]: "length (column name f) = height f"
  by (simp add: column_def height_def)

lemma length_str_values [simp]: "length (str_values ps) = length ps"
  by (simp add: str_values_def)

lemma raw_values_Inr: "raw_values ps = Inr cs \<Longrightarrow> length cs = length ps"
  by (auto simp: raw_values_def split: if_splits)

lemma length_loc_assign [simp]:
  "length (loc_assign segment keyword protocol) = min (length segment) (length protocol)"
  by (simp add: loc_assign_def)

lemma column_with_columns_same [simp]:
  "length vals = height f \<Longrightarrow> column name (with_columns name vals f) = vals"
  by (auto simp: column_def with_columns_def height_def cell_of_update list_eq_iff_nth_eq)

lemma column_with_columns_other [simp]:
  "name \<noteq> c \<Longrightarrow> length vals = height f \<Longrightarrow>
   column c (with_columns name vals f) = column c f"
  by (auto simp: column_def with_columns_def height_def cell_of_update_other list_eq_iff_nth_eq)

lemma fill_null_Inr:
  "fill_null name v f = Inr g \<Longrightarrow>
   height g = height f \<and> (\<forall>c. c \<noteq> name \<longrightarrow> column c g = column c f)"
  by (auto simp: fill_null_def get_column_def column_def[symmetric] split: if_splits)

lemma sort_by_rows:
  "sort_by name f = Inr g \<Longrightarrow> r \<in> set (rows g) \<Longrightarrow>
   \<exists>i < height f. r = rows f ! i"
  using sort_by_Inr[of name f g] by (auto simp: height_def in_set_conv_nth)

lemma cell_of_nth: "i < height f \<Longrightarrow> cell_of (rows f ! i) name = column name f ! i"
  by (simp add: column_def height_def)

subsection \<open>Row by row\<close>

text \<open>
  What the derived cells of a row are, as functions of the \<^verbatim>\<open>url\<close> cell of that row:
  \<^verbatim>\<open>df_parts[0]\<close>, \<^verbatim>\<open>base_url\<close>, \<^verbatim>\<open>protocol\<close> after the four assignments, and the three
  derived columns written to the table.
\<close>

definition base_part :: "cell \<Rightarrow> pcell" where
  "base_part c = split_cell CHR ''?'' 0 (str_replace_spaces (to_pandas c))"

definition base_url_of :: "cell \<Rightarrow> string" where
  "base_url_of c = astype_str (split_cell CHR ''.'' 0 (base_part c))"

definition protocol_of :: "pcell \<Rightarrow> pcell" where
  "protocol_of seg =
     (if seg = PStr ''info'' then PStr ''info''
      else if seg = PStr ''files'' then PStr ''files''
      else if seg = PStr ''griddap'' then PStr ''griddap''
      else if seg = PStr ''tabledap'' then PStr ''tabledap''
      else PNone)"

definition request_type_of :: "cell \<Rightarrow> cell" where
  "request_type_of c = Str (astype_str (protocol_of (split_cell CHR ''/'' 2 (PStr (base_url_of c)))))"

definition dataset_id_of :: "cell \<Rightarrow> cell" where
  "dataset_id_of c = Str (astype_str (split_cell CHR ''/'' 3 (PStr (base_url_of c))))"

definition file_type_of :: "cell \<Rightarrow> cell" where
  "file_type_of c = Str (astype_str (split_cell CHR ''.'' 1 (base_part c)))"

lemma zip_map_same: "zip (map f xs) (map g xs) = map (\<lambda>x. (f x, g x)) xs"
  by (induction xs) auto

lemma loc_assign_map:
  "loc_assign (map f xs) keyword (map g xs)
   = map (\<lambda>x. if f x = PStr keyword then PStr keyword else g x) xs"
  by (simp add: loc_assign_def zip_map_same)

lemma derive_url_columns_Inr:
  assumes "derive_url_columns d = Inr g"
  shows "height g = height d"
    and "column ''url'' g = column ''url'' d"
    and "column ''datetime'' g = column ''datetime'' d"
    and "column ''file_type'' g = map file_type_of (column ''url'' d)"
    and "column ''erddap_request_type'' g = map request_type_of (column ''url'' d)"
    and "column ''dataset_id'' g = map dataset_id_of (column ''url'' d)"
    and "column ''base_url'' g = map (\<lambda>c. Str (base_url_of c)) (column ''url'' d)"
  using assms unfolding derive_url_columns_def
  by (auto elim!: and_then_Inr dest!: split_col_Inr str_accessor_Inr get_column_Inr
       simp: Let_def str_values_def file_type_of_def base_part_def request_type_of_def
         dataset_id_of_def base_url_of_def protocol_of_def to_pandas_def zip_map_same
         loc_assign_map[where f = "\<lambda>x. split_cell CHR ''/'' 2 (PStr (astype_str x))"]
         loc_assign_def comp_def)

lemma derive_user_agent_base_height:
  "derive_user_agent_base d = Inr g \<Longrightarrow> height g = height d"
  unfolding derive_user_agent_base_def
  by (auto elim!: and_then_Inr dest!: split_col_Inr str_accessor_Inr get_column_Inr raw_values_Inr)

lemma derive_user_agent_base_Inr:
  assumes "derive_user_agent_base d = Inr g" and "c \<noteq> ''user_agent_base''"
  shows "column c g = column c d"
  using assms unfolding derive_user_agent_base_def
  by (auto elim!: and_then_Inr dest!: split_col_Inr str_accessor_Inr get_column_Inr raw_values_Inr)

lemma derive_ip_groups_height:
  "derive_ip_groups d = Inr g \<Longrightarrow> height g = height d"
  unfolding derive_ip_groups_def
  by (auto elim!: and_then_Inr dest!: split_col_Inr str_accessor_Inr get_column_Inr raw_values_Inr
       simp: Let_def)

lemma derive_ip_groups_Inr:
  assumes "derive_ip_groups d = Inr g" and "c \<noteq> ''ip_group''" and "c \<noteq> ''ip_subnet''"
  shows "column c g = column c d"
  using assms unfolding derive_ip_groups_def
  by (auto elim!: and_then_Inr dest!: split_col_Inr str_accessor_Inr get_column_Inr raw_values_Inr
       simp: Let_def)

lemma parse_columns_cells:
  assumes run: "module_parse_columns d = Inr g" and r: "r \<in> set (rows g)"
  shows "cell_of r ''file_type'' = file_type_of (cell_of r ''url'')"
    and "cell_of r ''erddap_request_type'' = request_type_of (cell_of r ''url'')"
    and "cell_of r ''dataset_id'' = dataset_id_of (cell_of r ''url'')"
    and "cell_of r ''base_url'' = Str (base_url_of (cell_of r ''url''))"
proof -
  from run obtain d0 d1 d2 d3 where
    d0: "fill_null ''country'' (Str ''unknown'') d = Inr d0"
    and d1: "derive_url_columns d0 = Inr d1"
    and d2: "derive_user_agent_base d1 = Inr d2"
    and d3: "derive_ip_groups d2 = Inr d3"
    and g: "sort_by ''datetime'' d3 = Inr g"
    unfolding module_parse_columns_def by (auto elim!: and_then_Inr)
  have h: "height d3 = height d0"
    using derive_url_columns_Inr(1)[OF d1] derive_user_agent_base_height[OF d2]
      derive_ip_groups_height[OF d3] by simp
  have keep: "column c d3 = column c d1"
    if "c \<noteq> ''user_agent_base''" "c \<noteq> ''ip_group''" "c \<noteq> ''ip_subnet''" for c
    using derive_user_agent_base_Inr[OF d2 that(1)] derive_ip_groups_Inr[OF d3 that(2,3)]
    by simp
  from sort_by_rows[OF g r] obtain i where i: "i < height d3" "r = rows d3 ! i" by blast
  have url: "cell_of r ''url'' = column ''url'' d0 ! i"
    using i keep[of "''url''"] derive_url_columns_Inr(2)[OF d1] by (simp add: cell_of_nth)
  have len: "i < length (column ''url'' d0)" using i h by simp
  show "cell_of r ''file_type'' = file_type_of (cell_of r ''url'')"
    using i keep[of "''file_type''"] derive_url_columns_Inr(4)[OF d1] len url
    by (simp add: cell_of_nth)
  show "cell_of r ''erddap_request_type'' = request_type_of (cell_of r ''url'')"
    using i keep[of "''erddap_request_type''"] derive_url_columns_Inr(5)[OF d1] len url
    by (simp add: cell_of_nth)
  show "cell_of r ''dataset_id'' = dataset_id_of (cell_of r ''url'')"
    using i keep[of "''dataset_id''"] derive_url_columns_Inr(6)[OF d1] len url
    by (simp add: cell_of_nth)
  show "cell_of r ''base_url'' = Str (base_url_of (cell_of r ''url''))"
    using i keep[of "''base_url''"] derive_url_columns_Inr(7)[OF d1] len url
    by (simp add: cell_of_nth)
qed

lemma request_type_never_null:
  assumes "module_parse_columns d = Inr g" and "r \<in> set (rows g)"
  shows "cell_of r ''erddap_request_type'' \<noteq> Null \<and> cell_of r ''dataset_id'' \<noteq> Null"
  using parse_columns_cells(2,3)[OF assms] by (simp add: request_type_of_def dataset_id_of_def)

subsection \<open>Splitting at a character\<close>

lemma split_char_unfold:
  "split_char sep s
   = takeWhile (\<lambda>c. c \<noteq> sep) s
     # (if sep \<in> set s then split_char sep (tl (dropWhile (\<lambda>c. c \<noteq> sep) s)) else [])"
proof (induction s)
  case Nil
  show ?case by simp
next
  case (Cons c cs)
  show ?case
  proof (cases "c = sep")
    case True
    then show ?thesis by simp
  next
    case False
    then have "split_char sep (c # cs)
               = (case split_char sep cs of [] \<Rightarrow> [[c]] | part # parts \<Rightarrow> (c # part) # parts)"
      by simp
    also have "\<dots> = (c # takeWhile (\<lambda>c. c \<noteq> sep) cs)
                  # (if sep \<in> set cs then split_char sep (tl (dropWhile (\<lambda>c. c \<noteq> sep) cs))
                     else [])"
      by (subst Cons.IH) simp
    finally show ?thesis using False by simp
  qed
qed

lemma split_char_first: "split_char sep s ! 0 = takeWhile (\<lambda>c. c \<noteq> sep) s"
  by (subst split_char_unfold) simp

lemma split_char_length: "1 < length (split_char sep s) \<longleftrightarrow> sep \<in> set s"
  by (subst split_char_unfold) (simp, subst split_char_unfold, simp)

lemma split_char_second:
  "sep \<in> set s \<Longrightarrow>
   split_char sep s ! 1
   = takeWhile (\<lambda>c. c \<noteq> sep) (tl (dropWhile (\<lambda>c. c \<noteq> sep) s))"
  by (subst split_char_unfold) (simp, subst split_char_unfold, simp)

section \<open>The request type and the dataset id\<close>

text \<open>The table \<^verbatim>\<open>_parse_columns\<close> makes of the two requests.\<close>

definition demo_derived :: frame where
  "demo_derived =
     \<lparr>columns = [''ip'', ''datetime'', ''url'', ''user-agent'', ''status-code'', ''bytes-sent'',
                 ''referer'', ''country'', ''base_url'', ''erddap_request_type'',
                 ''dataset_id'', ''request_kwargs'', ''file_type'', ''user_agent_base'',
                 ''ip_group'', ''ip_subnet''],
      rows = [[(''ip'', Str ''10.0.0.9''), (''datetime'', Int64 10),
               (''url'', Str ''/erddap/search/index.html?page=1''),
               (''user-agent'', Str ''Mozilla/5.0 (X11)''), (''status-code'', Int64 200),
               (''bytes-sent'', Int64 2048), (''referer'', Str ''-''),
               (''country'', Str ''unknown''), (''base_url'', Str ''/erddap/search/index''),
               (''erddap_request_type'', Str ''None''), (''dataset_id'', Str ''index''),
               (''request_kwargs'', Str ''page=1''), (''file_type'', Str ''html''),
               (''user_agent_base'', Str ''Mozilla''), (''ip_group'', Str ''10.0''),
               (''ip_subnet'', Str ''10.0.0'')],
              [(''ip'', Str ''10.0.0.7''), (''datetime'', Int64 20),
               (''url'', Str ''/erddap/tabledap/buoy.v2.csv?time&lat''),
               (''user-agent'', Str ''curl/8.0''), (''status-code'', Int64 200),
               (''bytes-sent'', Int64 512), (''referer'', Str ''-''),
               (''country'', Str ''Norway''), (''base_url'', Str ''/erddap/tabledap/buoy''),
               (''erddap_request_type'', Str ''tabledap''), (''dataset_id'', Str ''buoy''),
               (''request_kwargs'', Str ''time&lat''), (''file_type'', Str ''v2''),
               (''user_agent_base'', Str ''curl''), (''ip_group'', Str ''10.0''),
               (''ip_subnet'', Str ''10.0.0'')]]\<rparr>"

text \<open>
  The request type of a row is one of the four keywords exactly when the third segment of
  its \<^verbatim>\<open>base_url\<close> is; otherwise it is the string \<^verbatim>\<open>None\<close>, never a null, and so the
  \<^verbatim>\<open>when(...is_null())\<close> that follows in the code never blanks a dataset id.
\<close>

lemma request_type_recognised:
  assumes "module_parse_columns d = Inr g" and "r \<in> set (rows g)"
  shows "cell_of r ''erddap_request_type''
           \<in> {Str ''tabledap'', Str ''griddap'', Str ''files'', Str ''info''}
         \<longleftrightarrow> split_cell CHR ''/'' 2 (PStr (base_url_of (cell_of r ''url'')))
           \<in> {PStr ''tabledap'', PStr ''griddap'', PStr ''files'', PStr ''info''}"
  using parse_columns_cells(2)[OF assms]
  by (auto simp: request_type_of_def protocol_of_def astype_str_def)

text \<open>
  Claim C1. The claim says that the request type is null unless the third path segment is
  one of the four keywords, and that the dataset id is null with it. On the request for
  the search page, \<^verbatim>\<open>_parse_columns\<close> returns with the request type \<^verbatim>\<open>None\<close> as a string
  of four letters, which is not a null, and with the fourth path segment as the dataset
  id: \<^verbatim>\<open>.astype(str)\<close> has turned the missing protocol into that string before polars
  tests it for null.
\<close>

theorem request_type_none_example:
  "module_parse_columns demo_requests = Inr demo_derived
   \<and> cell_of (rows demo_derived ! 0) ''url'' = Str ''/erddap/search/index.html?page=1''
   \<and> cell_of (rows demo_derived ! 0) ''erddap_request_type'' = Str ''None''
   \<and> cell_of (rows demo_derived ! 0) ''dataset_id'' = Str ''index''"
  by code_simp

section \<open>The file type\<close>

text \<open>
  The base path of a URL: the URL without its spaces, up to its first question mark. It is
  the value of \<^verbatim>\<open>df_parts[0]\<close> for the URL.
\<close>

definition base_path :: "string \<Rightarrow> string" where
  "base_path u = takeWhile (\<lambda>c. c \<noteq> CHR ''?'') (filter (\<lambda>c. c \<noteq> CHR '' '') u)"

lemma base_part_Str: "base_part (Str u) = PStr (base_path u)"
  by (simp add: base_part_def to_pandas_def str_replace_spaces_def split_cell_def base_path_def
        split_char_first[symmetric] del: One_nat_def)
     (subst split_char_unfold, simp)

text \<open>
  The file type as the specification words it: the suffix after the last dot of the file
  name, the file name being the last segment of the base path.
\<close>

definition spec_file_type :: "string \<Rightarrow> string" where
  "spec_file_type u = last (split_char CHR ''.'' (last (split_char CHR ''/'' (base_path u))))"

text \<open>
  On the request with two dots in the file name, the file type that \<^verbatim>\<open>_parse_columns\<close>
  derives is not the suffix after the last dot.
\<close>

theorem file_type_not_after_last_dot:
  "module_parse_columns demo_requests = Inr demo_derived
   \<and> cell_of (rows demo_derived ! 1) ''url'' = Str ''/erddap/tabledap/buoy.v2.csv?time&lat''
   \<and> cell_of (rows demo_derived ! 1) ''file_type'' = Str ''v2''
   \<and> spec_file_type ''/erddap/tabledap/buoy.v2.csv?time&lat'' = ''csv''
   \<and> cell_of (rows demo_derived ! 1) ''file_type''
       \<noteq> Str (spec_file_type ''/erddap/tabledap/buoy.v2.csv?time&lat'')"
  by code_simp

lemma file_type_cell_value:
  assumes "module_parse_columns d = Inr g" and "r \<in> set (rows g)"
    and "cell_of r ''url'' = Str u"
  shows "cell_of r ''file_type''
         = Str (if CHR ''.'' \<in> set (base_path u)
                then takeWhile (\<lambda>c. c \<noteq> CHR ''.'')
                       (tl (dropWhile (\<lambda>c. c \<noteq> CHR ''.'') (base_path u)))
                else ''None'')"
proof -
  have "cell_of r ''file_type'' = Str (astype_str (split_cell CHR ''.'' 1 (PStr (base_path u))))"
    using parse_columns_cells(1)[OF assms(1,2)] assms(3)
    by (simp add: file_type_of_def base_part_Str)
  then show ?thesis
    using split_char_length[of "CHR ''.''" "base_path u"]
      split_char_second[of "CHR ''.''" "base_path u"]
    by (simp add: split_cell_def astype_str_def del: One_nat_def)
qed

text \<open>
  Claim C8, as amended. In every row of the table that \<^verbatim>\<open>_parse_columns\<close> returns, the file
  type is the text between the first and the second dot of the base path of the row's
  URL (up to the end of the base path when it has one dot only), and the string
  \<^verbatim>\<open>None\<close> when the base path has no dot. With exactly one dot in the base path this is
  the suffix after the dot (\<open>file_type_one_dot\<close>).
\<close>

theorem file_type_between_first_dots:
  assumes "module_parse_columns d = Inr g" and "r \<in> set (rows g)"
    and "cell_of r ''url'' = Str u"
  shows "cell_of r ''file_type''
         = Str (if CHR ''.'' \<in> set (base_path u)
                then takeWhile (\<lambda>c. c \<noteq> CHR ''.'')
                       (tl (dropWhile (\<lambda>c. c \<noteq> CHR ''.'') (base_path u)))
                else ''None'')"
  using assms by (rule file_type_cell_value)

lemma dropWhile_to_sep:
  "sep \<notin> set a \<Longrightarrow> dropWhile (\<lambda>c. c \<noteq> sep) (a @ sep # b) = sep # b"
  by (induction a) auto

lemma takeWhile_no_sep: "sep \<notin> set b \<Longrightarrow> takeWhile (\<lambda>c. c \<noteq> sep) b = b"
  by (induction b) auto

lemma file_type_one_dot:
  assumes "module_parse_columns d = Inr g" and "r \<in> set (rows g)"
    and "cell_of r ''url'' = Str u"
    and "base_path u = a @ ''.'' @ b" and "CHR ''.'' \<notin> set a" and "CHR ''.'' \<notin> set b"
  shows "cell_of r ''file_type'' = Str b"
  using file_type_cell_value[OF assms(1-3)] assms(4-6)
  by (simp add: dropWhile_to_sep takeWhile_no_sep)

theorem file_type_between_first_dots_witness:
  "module_parse_columns demo_requests = Inr demo_derived
   \<and> rows demo_derived ! 1 \<in> set (rows demo_derived)
   \<and> cell_of (rows demo_derived ! 1) ''url'' = Str ''/erddap/tabledap/buoy.v2.csv?time&lat''
   \<and> cell_of (rows demo_derived ! 1) ''file_type'' = Str ''v2''"
proof -
  have run: "module_parse_columns demo_requests = Inr demo_derived" by code_simp
  have r: "rows demo_derived ! 1 \<in> set (rows demo_derived)" by code_simp
  have u: "cell_of (rows demo_derived ! 1) ''url'' = Str ''/erddap/tabledap/buoy.v2.csv?time&lat''"
    by code_simp
  have v: "(if CHR ''.'' \<in> set (base_path ''/erddap/tabledap/buoy.v2.csv?time&lat'')
            then takeWhile (\<lambda>c. c \<noteq> CHR ''.'')
                   (tl (dropWhile (\<lambda>c. c \<noteq> CHR ''.'')
                      (base_path ''/erddap/tabledap/buoy.v2.csv?time&lat'')))
            else ''None'') = ''v2''"
    by code_simp
  from file_type_between_first_dots[OF run r u] run r u show ?thesis
    unfolding v by simp
qed

section \<open>The anonymized URLs\<close>

text \<open>
  On an anonymized table whose \<^verbatim>\<open>url\<close> column holds strings and nulls,
  \<^verbatim>\<open>anonymize_query\<close> returns, with the \<^verbatim>\<open>url\<close> column replaced by \<open>re_sub_email\<close> of
  every URL.
\<close>

lemma anonymize_query_urls:
  assumes a: "anonymized s = Some a"
    and col: "''url'' \<in> set (columns a)"
    and strs: "\<forall>c \<in> set (column ''url'' a). c = Null \<or> (\<exists>u. c = Str u)"
  shows "anonymize_query s
         = (None, s\<lparr>anonymized := Some (with_columns ''url''
              (map (\<lambda>c. case c of Str u \<Rightarrow> Str (re_sub_email u) | _ \<Rightarrow> Null) (column ''url'' a))
              a)\<rparr>)"
proof -
  define g where "g = (\<lambda>c. case c of Str u \<Rightarrow> Str (re_sub_email u) | _ \<Rightarrow> Null)"
  have "(if c = Null then Inr Null else strip_email c) = Inr (g c)"
    if "c \<in> set (column ''url'' a)" for c
    using strs that by (auto simp: g_def strip_email_def)
  then have m: "map_elements strip_email (column ''url'' a) = Inr (map g (column ''url'' a))"
    unfolding map_elements_def by (rule collect_all_Inr)
  have "get_column ''url'' a = Inr (column ''url'' a)"
    using col by (simp add: get_column_def column_def)
  with a m show ?thesis
    unfolding g_def by (simp add: anonymize_query_def)
qed

text \<open>
  Claim C10. On an anonymized table whose \<^verbatim>\<open>url\<close> column holds strings and nulls,
  \<^verbatim>\<open>anonymize_query\<close> returns and keeps the columns, the rows and every cell outside the
  \<^verbatim>\<open>url\<close> column. In every row a null URL stays null, and a URL is replaced by what
  \<^verbatim>\<open>re.sub\<close> makes of it, that is: up to the first \<^verbatim>\<open>email=\<close> the URL is copied; where the
  value \<open>v\<close> after it runs (without a line break, which a URL read from one log line
  cannot hold) up to a next \<^verbatim>\<open>&\<close>, exactly \<^verbatim>\<open>email=\<close>, the value and that \<^verbatim>\<open>&\<close> are
  removed, and the rest is treated the same way; where no \<^verbatim>\<open>&\<close> follows, as for an email
  parameter that is the last one, the URL is left as it is; so is a URL without
  \<^verbatim>\<open>email=\<close>.
\<close>

theorem anonymize_query_strips_email:
  assumes a: "anonymized s = Some a"
    and col: "''url'' \<in> set (columns a)"
    and strs: "\<forall>c \<in> set (column ''url'' a). c = Null \<or> (\<exists>u. c = Str u)"
  shows "\<exists>a'. anonymize_query s = (None, s\<lparr>anonymized := Some a'\<rparr>)
           \<and> columns a' = columns a
           \<and> length (rows a') = length (rows a)
           \<and> (\<forall>i < length (rows a). \<forall>c. c \<noteq> ''url'' \<longrightarrow>
                 cell_of (rows a' ! i) c = cell_of (rows a ! i) c)
           \<and> (\<forall>i < length (rows a). cell_of (rows a ! i) ''url'' = Null \<longrightarrow>
                 cell_of (rows a' ! i) ''url'' = Null)
           \<and> (\<forall>i < length (rows a). \<forall>u. cell_of (rows a ! i) ''url'' = Str u \<longrightarrow>
                 cell_of (rows a' ! i) ''url'' = Str (re_sub_email u))
           \<and> (\<forall>i < length (rows a). \<forall>pre v rest.
                 cell_of (rows a ! i) ''url'' = Str (pre @ ''email='' @ v @ ''&'' @ rest)
                 \<and> \<not> contains ''email='' pre \<and> CHR ''&'' \<notin> set v \<and> newline \<notin> set v \<longrightarrow>
                 cell_of (rows a' ! i) ''url'' = Str (pre @ re_sub_email rest))
           \<and> (\<forall>i < length (rows a). \<forall>pre v.
                 cell_of (rows a ! i) ''url'' = Str (pre @ ''email='' @ v)
                 \<and> \<not> contains ''email='' pre \<and> CHR ''&'' \<notin> set v \<longrightarrow>
                 cell_of (rows a' ! i) ''url'' = Str (pre @ ''email='' @ v))
           \<and> (\<forall>i < length (rows a). \<forall>u.
                 cell_of (rows a ! i) ''url'' = Str u \<and> \<not> contains ''email='' u \<longrightarrow>
                 cell_of (rows a' ! i) ''url'' = Str u)"
proof -
  define g where "g = (\<lambda>c. case c of Str u \<Rightarrow> Str (re_sub_email u) | _ \<Rightarrow> Null)"
  define a' where "a' = with_columns ''url'' (map g (column ''url'' a)) a"
  have len: "length (map g (column ''url'' a)) = length (rows a)"
    by (simp add: column_def)
  have run: "anonymize_query s = (None, s\<lparr>anonymized := Some a'\<rparr>)"
    unfolding a'_def g_def using a col strs by (rule anonymize_query_urls)
  have cols: "columns a' = columns a"
    unfolding a'_def using col by (rule columns_with_columns_present)
  have rows_len: "length (rows a') = length (rows a)"
    unfolding a'_def using len by (rule length_rows_with_columns)
  have others: "\<forall>i < length (rows a). \<forall>c. c \<noteq> ''url'' \<longrightarrow>
                 cell_of (rows a' ! i) c = cell_of (rows a ! i) c"
    unfolding a'_def using len by (auto intro: rows_with_columns_other_nth)
  have new: "cell_of (rows a' ! i) ''url'' = g (cell_of (rows a ! i) ''url'')"
    if "i < length (rows a)" for i
    unfolding a'_def using that len by (simp add: rows_with_columns_nth column_def)
  have nulls: "\<forall>i < length (rows a). cell_of (rows a ! i) ''url'' = Null \<longrightarrow>
                 cell_of (rows a' ! i) ''url'' = Null"
    by (simp add: new g_def)
  have subst: "\<forall>i < length (rows a). \<forall>u. cell_of (rows a ! i) ''url'' = Str u \<longrightarrow>
                 cell_of (rows a' ! i) ''url'' = Str (re_sub_email u)"
    by (simp add: new g_def)
  have hit: "\<forall>i < length (rows a). \<forall>pre v rest.
                 cell_of (rows a ! i) ''url'' = Str (pre @ ''email='' @ v @ ''&'' @ rest)
                 \<and> \<not> contains ''email='' pre \<and> CHR ''&'' \<notin> set v \<and> newline \<notin> set v \<longrightarrow>
                 cell_of (rows a' ! i) ''url'' = Str (pre @ re_sub_email rest)"
  proof (intro allI impI)
    fix i pre v rest
    assume i: "i < length (rows a)"
      and h: "cell_of (rows a ! i) ''url'' = Str (pre @ ''email='' @ v @ ''&'' @ rest)
              \<and> \<not> contains ''email='' pre \<and> CHR ''&'' \<notin> set v \<and> newline \<notin> set v"
    from h have "re_sub_email (pre @ ''email='' @ v @ ''&'' @ rest) = pre @ re_sub_email rest"
      using re_sub_email_cases[of pre v rest] by blast
    with i h subst show "cell_of (rows a' ! i) ''url'' = Str (pre @ re_sub_email rest)"
      by simp
  qed
  have last: "\<forall>i < length (rows a). \<forall>pre v.
                 cell_of (rows a ! i) ''url'' = Str (pre @ ''email='' @ v)
                 \<and> \<not> contains ''email='' pre \<and> CHR ''&'' \<notin> set v \<longrightarrow>
                 cell_of (rows a' ! i) ''url'' = Str (pre @ ''email='' @ v)"
  proof (intro allI impI)
    fix i pre v
    assume i: "i < length (rows a)"
      and h: "cell_of (rows a ! i) ''url'' = Str (pre @ ''email='' @ v)
              \<and> \<not> contains ''email='' pre \<and> CHR ''&'' \<notin> set v"
    from h have "re_sub_email (pre @ ''email='' @ v) = pre @ ''email='' @ v"
      using re_sub_email_cases[of pre v] by blast
    with i h subst show "cell_of (rows a' ! i) ''url'' = Str (pre @ ''email='' @ v)"
      by simp
  qed
  have none: "\<forall>i < length (rows a). \<forall>u.
                 cell_of (rows a ! i) ''url'' = Str u \<and> \<not> contains ''email='' u \<longrightarrow>
                 cell_of (rows a' ! i) ''url'' = Str u"
    using subst re_sub_email_no_email by simp
  from run cols rows_len others nulls subst hit last none show ?thesis
    by - (rule exI[of _ a'], intro conjI; assumption)
qed

text \<open>
  An anonymized table with an email parameter in the middle of a query, one at the end,
  a URL without a query and a null URL.
\<close>

definition demo_anonymized :: frame where
  "demo_anonymized = \<lparr>columns = [''ip'', ''url''],
      rows = [[(''ip'', Int64 0), (''url'', Str ''/d.csv?time&email=a@b.c&lat'')],
              [(''ip'', Int64 1), (''url'', Str ''/d.csv?time&email=a@b.c'')],
              [(''ip'', Int64 0), (''url'', Str ''/d.csv'')],
              [(''ip'', Int64 2), (''url'', Null)]]\<rparr>"

theorem anonymize_query_strips_email_witness:
  "anonymized (init\<lparr>anonymized := Some demo_anonymized\<rparr>) = Some demo_anonymized
   \<and> ''url'' \<in> set (columns demo_anonymized)
   \<and> column ''url'' demo_anonymized
       = [Str ''/d.csv?time&email=a@b.c&lat'', Str ''/d.csv?time&email=a@b.c'',
          Str ''/d.csv'', Null]
   \<and> (\<exists>a'. anonymize_query (init\<lparr>anonymized := Some demo_anonymized\<rparr>)
              = (None, init\<lparr>anonymized := Some a'\<rparr>)
          \<and> length (rows a') = 4
          \<and> cell_of (rows a' ! 0) ''url'' = Str ''/d.csv?time&lat''
          \<and> cell_of (rows a' ! 1) ''url'' = Str ''/d.csv?time&email=a@b.c''
          \<and> cell_of (rows a' ! 2) ''url'' = Str ''/d.csv''
          \<and> cell_of (rows a' ! 3) ''url'' = Null
          \<and> cell_of (rows a' ! 0) ''ip'' = Int64 0)"
proof -
  have a: "anonymized (init\<lparr>anonymized := Some demo_anonymized\<rparr>) = Some demo_anonymized"
    by simp
  have c: "''url'' \<in> set (columns demo_anonymized)" by (simp add: demo_anonymized_def)
  have urls: "column ''url'' demo_anonymized
       = [Str ''/d.csv?time&email=a@b.c&lat'', Str ''/d.csv?time&email=a@b.c'',
          Str ''/d.csv'', Null]"
    by (simp add: demo_anonymized_def column_def cell_of_def)
  have strs: "\<forall>c \<in> set (column ''url'' demo_anonymized). c = Null \<or> (\<exists>u. c = Str u)"
    by (simp add: urls)
  have l: "length (rows demo_anonymized) = 4" by (simp add: demo_anonymized_def)
  have r: "cell_of (rows demo_anonymized ! 0) ''url''
             = Str (''/d.csv?time&'' @ ''email='' @ ''a@b.c'' @ ''&'' @ ''lat'')"
    "cell_of (rows demo_anonymized ! 1) ''url'' = Str (''/d.csv?time&'' @ ''email='' @ ''a@b.c'')"
    "cell_of (rows demo_anonymized ! 2) ''url'' = Str ''/d.csv''"
    "cell_of (rows demo_anonymized ! 3) ''url'' = Null"
    "cell_of (rows demo_anonymized ! 0) ''ip'' = Int64 0"
    by (simp_all add: demo_anonymized_def cell_of_def)
  have s: "\<not> contains ''email='' ''/d.csv?time&''" "CHR ''&'' \<notin> set ''a@b.c''"
    "newline \<notin> set ''a@b.c''" "\<not> contains ''email='' ''/d.csv''"
    "re_sub_email ''lat'' = ''lat''"
    by (simp_all add: newline_def match_email_def)
  from anonymize_query_strips_email[OF a c strs] obtain a' where
    run0: "anonymize_query (init\<lparr>anonymized := Some demo_anonymized\<rparr>)
           = (None, init\<lparr>anonymized := Some demo_anonymized, anonymized := Some a'\<rparr>)"
    and "columns a' = columns demo_anonymized"
    and len: "length (rows a') = length (rows demo_anonymized)"
    and others: "\<forall>i < length (rows demo_anonymized). \<forall>c. c \<noteq> ''url'' \<longrightarrow>
                 cell_of (rows a' ! i) c = cell_of (rows demo_anonymized ! i) c"
    and nulls: "\<forall>i < length (rows demo_anonymized).
                 cell_of (rows demo_anonymized ! i) ''url'' = Null \<longrightarrow>
                 cell_of (rows a' ! i) ''url'' = Null"
    and "\<forall>i < length (rows demo_anonymized). \<forall>u.
                 cell_of (rows demo_anonymized ! i) ''url'' = Str u \<longrightarrow>
                 cell_of (rows a' ! i) ''url'' = Str (re_sub_email u)"
    and hit: "\<forall>i < length (rows demo_anonymized). \<forall>pre v rest.
                 cell_of (rows demo_anonymized ! i) ''url'' = Str (pre @ ''email='' @ v @ ''&'' @ rest)
                 \<and> \<not> contains ''email='' pre \<and> CHR ''&'' \<notin> set v \<and> newline \<notin> set v \<longrightarrow>
                 cell_of (rows a' ! i) ''url'' = Str (pre @ re_sub_email rest)"
    and last: "\<forall>i < length (rows demo_anonymized). \<forall>pre v.
                 cell_of (rows demo_anonymized ! i) ''url'' = Str (pre @ ''email='' @ v)
                 \<and> \<not> contains ''email='' pre \<and> CHR ''&'' \<notin> set v \<longrightarrow>
                 cell_of (rows a' ! i) ''url'' = Str (pre @ ''email='' @ v)"
    and none: "\<forall>i < length (rows demo_anonymized). \<forall>u.
                 cell_of (rows demo_anonymized ! i) ''url'' = Str u \<and> \<not> contains ''email='' u \<longrightarrow>
                 cell_of (rows a' ! i) ''url'' = Str u"
    by (elim exE conjE) (rule that)
  have run: "anonymize_query (init\<lparr>anonymized := Some demo_anonymized\<rparr>)
           = (None, init\<lparr>anonymized := Some a'\<rparr>)"
    using run0 by simp
  have len4: "length (rows a') = 4" using len l by simp
  have "cell_of (rows a' ! 0) ''url'' = Str (''/d.csv?time&'' @ re_sub_email ''lat'')"
    by (rule hit[rule_format, of 0 "''/d.csv?time&''" "''a@b.c''" "''lat''"])
       (simp add: l, intro conjI r(1) s(1) s(2) s(3))
  then have c0: "cell_of (rows a' ! 0) ''url'' = Str ''/d.csv?time&lat''"
    by (simp only: s(5) append.simps)
  have "cell_of (rows a' ! 1) ''url'' = Str (''/d.csv?time&'' @ ''email='' @ ''a@b.c'')"
    by (rule last[rule_format, of 1 "''/d.csv?time&''" "''a@b.c''"])
       (simp add: l, intro conjI r(2) s(1) s(2))
  then have c1: "cell_of (rows a' ! 1) ''url'' = Str ''/d.csv?time&email=a@b.c''"
    by simp
  have c2: "cell_of (rows a' ! 2) ''url'' = Str ''/d.csv''"
    by (rule none[rule_format, of 2 "''/d.csv''"]) (simp add: l, intro conjI r(3) s(4))
  have c3: "cell_of (rows a' ! 3) ''url'' = Null"
    by (rule nulls[rule_format, of 3]) (simp add: l, rule r(4))
  have c4: "cell_of (rows a' ! 0) ''ip'' = Int64 0"
    using others[rule_format, of 0 "''ip''"] l r(5) by simp
  from a c urls run len4 c0 c1 c2 c3 c4 show ?thesis
    by - (intro conjI, assumption, assumption, assumption, rule exI[of _ a'], intro conjI;
          assumption)
qed

end
